theory Spec2Isabelle
  imports Complex_Main
begin

section \<open>Numbers\<close>

text \<open>
  The planner computes with JavaScript numbers: IEEE 754 binary64, rounded to nearest
  with ties to even. A number is a finite real, the value of a double, or an infinity,
  or NaN. The two zeros are one value here, \<open>Finite 0\<close>: the program tells them apart
  only when a zero divides a number that is not zero, and every zero divisor of the
  planner is a positive zero (a sum started at \<open>0\<close>, or a product with a price clamped by
  \<open>Math.max(0, _)\<close>).
\<close>

datatype jsnum = Finite real | PositiveInfinity | NegativeInfinity | NaN

subsection \<open>Rounding to binary64\<close>

text \<open>The number of binary digits of a natural number.\<close>

fun bits :: "nat \<Rightarrow> nat" where
  "bits n = (if n = 0 then 0 else Suc (bits (n div 2)))"

declare bits.simps [simp del]

text \<open>
  The binary exponent of a positive real \<open>x\<close>: the \<open>e\<close> with \<open>2^e \<le> x < 2^(e + 1)\<close>
  (lemma \<open>exponent_bounds\<close>).
\<close>

definition exponent :: "real \<Rightarrow> int" where
  "exponent x =
     (if 1 \<le> x then int (bits (nat \<lfloor>x\<rfloor>)) - 1
      else - int (bits (nat (\<lceil>1 / x\<rceil> - 1))))"

text \<open>The nearest integer, a tie going to the even one.\<close>

definition round_even :: "real \<Rightarrow> int" where
  "round_even m =
     (let f = \<lfloor>m\<rfloor>; r = m - of_int f
      in if r < 1 / 2 then f else if 1 / 2 < r then f + 1
         else if even f then f else f + 1)"

text \<open>
  A double has 53 significant bits and an exponent of at least \<open>- 1022\<close>: below
  \<open>2^(- 1022)\<close> the doubles are the subnormal ones, all multiples of \<open>2^(- 1074)\<close>. So the
  doubles next to a positive \<open>x\<close> are the multiples of \<open>ulp x\<close>, and \<open>round64 x\<close> is the
  nearest of them.
\<close>

definition binade :: "real \<Rightarrow> int" where
  "binade x = max (exponent x) (- 1022)"

definition ulp :: "real \<Rightarrow> real" where
  "ulp x = 2 powi (binade x - 52)"

definition round64 :: "real \<Rightarrow> real" where
  "round64 x = of_int (round_even (x / ulp x)) * ulp x"

definition nearest :: "real \<Rightarrow> real" where
  "nearest x = (if 0 \<le> x then round64 x else - round64 (- x))"

text \<open>
  The double that an operation with the exact result \<open>x\<close> returns: the nearest one, or an
  infinity when that is \<open>2^1024\<close> or beyond.
\<close>

definition f64 :: "real \<Rightarrow> jsnum" where
  "f64 x =
     (let r = nearest x
      in if 2 ^ 1024 \<le> r then PositiveInfinity
         else if r \<le> - (2 ^ 1024) then NegativeInfinity
         else Finite r)"

subsection \<open>Arithmetic\<close>

text \<open>
  \<open>- x\<close>, \<open>x + y\<close>, \<open>x - y\<close>, \<open>x * y\<close> and \<open>x / y\<close> of the source: the exact result of two
  finite operands is rounded by \<open>f64\<close>; the other cases are those of IEEE 754.
\<close>

fun js_neg :: "jsnum \<Rightarrow> jsnum" where
  "js_neg (Finite x) = Finite (- x)"
| "js_neg PositiveInfinity = NegativeInfinity"
| "js_neg NegativeInfinity = PositiveInfinity"
| "js_neg NaN = NaN"

fun js_add :: "jsnum \<Rightarrow> jsnum \<Rightarrow> jsnum" where
  "js_add (Finite x) (Finite y) = f64 (x + y)"
| "js_add (Finite x) PositiveInfinity = PositiveInfinity"
| "js_add (Finite x) NegativeInfinity = NegativeInfinity"
| "js_add PositiveInfinity (Finite y) = PositiveInfinity"
| "js_add PositiveInfinity PositiveInfinity = PositiveInfinity"
| "js_add NegativeInfinity (Finite y) = NegativeInfinity"
| "js_add NegativeInfinity NegativeInfinity = NegativeInfinity"
| "js_add x y = NaN"

definition js_sub :: "jsnum \<Rightarrow> jsnum \<Rightarrow> jsnum" where
  "js_sub x y = js_add x (js_neg y)"

text \<open>The infinity with the given sign.\<close>

definition signed_infinity :: "bool \<Rightarrow> jsnum" where
  "signed_infinity positive = (if positive then PositiveInfinity else NegativeInfinity)"

fun js_mul :: "jsnum \<Rightarrow> jsnum \<Rightarrow> jsnum" where
  "js_mul (Finite x) (Finite y) = f64 (x * y)"
| "js_mul (Finite x) PositiveInfinity = (if x = 0 then NaN else signed_infinity (0 < x))"
| "js_mul (Finite x) NegativeInfinity = (if x = 0 then NaN else signed_infinity (x < 0))"
| "js_mul PositiveInfinity (Finite y) = (if y = 0 then NaN else signed_infinity (0 < y))"
| "js_mul NegativeInfinity (Finite y) = (if y = 0 then NaN else signed_infinity (y < 0))"
| "js_mul PositiveInfinity PositiveInfinity = PositiveInfinity"
| "js_mul PositiveInfinity NegativeInfinity = NegativeInfinity"
| "js_mul NegativeInfinity PositiveInfinity = NegativeInfinity"
| "js_mul NegativeInfinity NegativeInfinity = PositiveInfinity"
| "js_mul x y = NaN"

fun js_div :: "jsnum \<Rightarrow> jsnum \<Rightarrow> jsnum" where
  "js_div (Finite x) (Finite y) =
     (if y = 0 then (if x = 0 then NaN else signed_infinity (0 < x)) else f64 (x / y))"
| "js_div (Finite x) PositiveInfinity = Finite 0"
| "js_div (Finite x) NegativeInfinity = Finite 0"
| "js_div PositiveInfinity (Finite y) = signed_infinity (0 \<le> y)"
| "js_div NegativeInfinity (Finite y) = signed_infinity (y < 0)"
| "js_div x y = NaN"

text \<open>\<open>x < y\<close>, \<open>x === y\<close>, \<open>x <= y\<close> and \<open>x > y\<close>: every comparison with NaN is false.\<close>

fun js_lt :: "jsnum \<Rightarrow> jsnum \<Rightarrow> bool" where
  "js_lt (Finite x) (Finite y) = (x < y)"
| "js_lt (Finite x) PositiveInfinity = True"
| "js_lt NegativeInfinity (Finite y) = True"
| "js_lt NegativeInfinity PositiveInfinity = True"
| "js_lt x y = False"

definition js_eq :: "jsnum \<Rightarrow> jsnum \<Rightarrow> bool" where
  "js_eq x y = (x = y \<and> x \<noteq> NaN)"

definition js_le :: "jsnum \<Rightarrow> jsnum \<Rightarrow> bool" where
  "js_le x y = (js_lt x y \<or> js_eq x y)"

definition js_gt :: "jsnum \<Rightarrow> jsnum \<Rightarrow> bool" where
  "js_gt x y = js_lt y x"

text \<open>\<open>Math.min\<close> and \<open>Math.max\<close>: NaN when an argument is NaN.\<close>

definition js_min :: "jsnum \<Rightarrow> jsnum \<Rightarrow> jsnum" where
  "js_min x y = (if x = NaN \<or> y = NaN then NaN else if js_lt y x then y else x)"

definition js_max :: "jsnum \<Rightarrow> jsnum \<Rightarrow> jsnum" where
  "js_max x y = (if x = NaN \<or> y = NaN then NaN else if js_lt x y then y else x)"

text \<open>
  \<open>Math.floor\<close>, and \<open>Math.round\<close>, which rounds a tie towards plus infinity. Both are
  exact: the floor of a double is a double.
\<close>

fun js_floor :: "jsnum \<Rightarrow> jsnum" where
  "js_floor (Finite x) = Finite (of_int \<lfloor>x\<rfloor>)"
| "js_floor x = x"

fun js_round :: "jsnum \<Rightarrow> jsnum" where
  "js_round (Finite x) = Finite (of_int \<lfloor>x + 1 / 2\<rfloor>)"
| "js_round x = x"

text \<open>The idiom \<open>Math.round(x * 10) / 10\<close>: one decimal place.\<close>

definition round1 :: "jsnum \<Rightarrow> jsnum" where
  "round1 x = js_div (js_round (js_mul x (Finite 10))) (Finite 10)"

text \<open>
  The finite numbers of the program are doubles: \<open>f64\<close> leaves them as they are. Every
  result of an operation above is one; a number that comes from outside is one by this
  predicate.
\<close>

fun is_double :: "jsnum \<Rightarrow> bool" where
  "is_double (Finite x) = (f64 x = Finite x)"
| "is_double x = True"

section \<open>Data model\<close>

text \<open>\<open>interface DistributionData { percentage: number; tge: number; duration: number }\<close>\<close>

record DistributionData =
  percentage :: jsnum
  tge :: jsnum
  duration :: jsnum

text \<open>
  \<open>interface Distribution { [key: string]: DistributionData }\<close>: an object, read through
  \<open>Object.entries\<close> in insertion order, so an association list. The keys of an object are
  distinct; the planner's are the seven names of \<open>category_keys\<close>, in this order.
\<close>

type_synonym Distribution = "(string \<times> DistributionData) list"

definition category_keys :: "string list" where
  "category_keys =
     [''publicSale'', ''privateRounds'', ''teamAndAdvisors'', ''development'',
      ''ecosystem'', ''treasury'', ''liquidityPool'']"

definition default_distribution :: Distribution where
  "default_distribution =
     [(''publicSale'', \<lparr>percentage = Finite 20, tge = Finite 10, duration = Finite 12\<rparr>),
      (''privateRounds'', \<lparr>percentage = Finite 15, tge = Finite 5, duration = Finite 24\<rparr>),
      (''teamAndAdvisors'', \<lparr>percentage = Finite 15, tge = Finite 0, duration = Finite 36\<rparr>),
      (''development'', \<lparr>percentage = Finite 20, tge = Finite 0, duration = Finite 48\<rparr>),
      (''ecosystem'', \<lparr>percentage = Finite 15, tge = Finite 5, duration = Finite 36\<rparr>),
      (''treasury'', \<lparr>percentage = Finite 10, tge = Finite 0, duration = Finite 48\<rparr>),
      (''liquidityPool'', \<lparr>percentage = Finite 5, tge = Finite 20, duration = Finite 24\<rparr>)]"

text \<open>\<open>obj[k] = v\<close> on an object: an existing key keeps its place, a new key goes last.\<close>

fun obj_set :: "string \<Rightarrow> 'v \<Rightarrow> (string \<times> 'v) list \<Rightarrow> (string \<times> 'v) list" where
  "obj_set k v [] = [(k, v)]"
| "obj_set k v ((k', v') # rest) =
     (if k' = k then (k, v) # rest else (k', v') # obj_set k v rest)"

text \<open>An update of a field of \<open>obj[k]\<close> in place, for a key that is present.\<close>

fun obj_modify :: "string \<Rightarrow> ('v \<Rightarrow> 'v) \<Rightarrow> (string \<times> 'v) list \<Rightarrow> (string \<times> 'v) list" where
  "obj_modify k f [] = []"
| "obj_modify k f ((k', v') # rest) =
     (if k' = k then (k', f v') # rest else (k', v') # obj_modify k f rest)"

text \<open>
  The state of the component: the four \<open>useState\<close> cells the computation reads. The
  literal \<open>0.001\<close> of the source is the double nearest to it.
\<close>

record planner_state =
  totalSupply :: jsnum
  initialTokenPrice :: jsnum
  fdv :: jsnum
  distribution :: Distribution

definition initial_state :: planner_state where
  "initial_state =
     \<lparr>totalSupply = Finite 1000000000, initialTokenPrice = f64 (1 / 1000), fdv = Finite 0,
      distribution = default_distribution\<rparr>"

text \<open>
  The effect that follows every change of \<open>totalSupply\<close> or \<open>initialTokenPrice\<close>:
  \<open>setFdv(Math.max(0, totalSupply * initialTokenPrice))\<close>.
\<close>

definition sync_fdv :: "planner_state \<Rightarrow> planner_state" where
  "sync_fdv st = st\<lparr>fdv := js_max (Finite 0) (js_mul (totalSupply st) (initialTokenPrice st))\<rparr>"

definition handleTotalSupplyChange :: "planner_state \<Rightarrow> jsnum \<Rightarrow> planner_state" where
  "handleTotalSupplyChange st v = st\<lparr>totalSupply := js_max (Finite 1) v\<rparr>"

definition handleTokenPriceChange :: "planner_state \<Rightarrow> jsnum \<Rightarrow> planner_state" where
  "handleTokenPriceChange st v = st\<lparr>initialTokenPrice := js_max (Finite 0) v\<rparr>"

text \<open>
  What ends a computation without a value of the model: \<open>TypeError\<close> is the exception
  JavaScript throws on a property of \<open>undefined\<close> and on \<open>reduce\<close> of an empty array with
  no initial value; \<open>UndefinedField\<close> is not an exception: the source goes on with an
  entry without its other fields, which the records above cannot hold.
\<close>

datatype failure = TypeError | UndefinedField

section \<open>The unlock schedule\<close>

record point =
  month :: nat
  circulating :: jsnum

record raw_point = point +
  rawCirculating :: jsnum

record unlock_point = point +
  percentCirculating :: jsnum

text \<open>\<open>Array.from({ length: months + 1 }, (_, month) => ({ month, circulating: 0, rawCirculating: 0 }))\<close>\<close>

definition empty_schedule :: "nat \<Rightarrow> raw_point list" where
  "empty_schedule months =
     map (\<lambda>m. \<lparr>month = m, circulating = Finite 0, rawCirculating = Finite 0\<rparr>) [0..<months + 1]"

text \<open>\<open>schedule[i].rawCirculating += x\<close>: a TypeError when \<open>schedule[i]\<close> is undefined.\<close>

definition add_raw :: "nat \<Rightarrow> jsnum \<Rightarrow> raw_point list \<Rightarrow> failure + raw_point list" where
  "add_raw i x schedule =
     (if i < length schedule
      then Inr (schedule[i := (schedule ! i)\<lparr>rawCirculating := js_add (rawCirculating (schedule ! i)) x\<rparr>])
      else Inl TypeError)"

text \<open>
  \<open>for (let month = 1; month <= data.duration; month++) schedule[month].rawCirculating += monthlyUnlock\<close>,
  from the value \<open>month\<close> on.
\<close>

function unlock_loop :: "jsnum \<Rightarrow> jsnum \<Rightarrow> nat \<Rightarrow> raw_point list \<Rightarrow> failure + raw_point list" where
  "unlock_loop monthlyUnlock dur m schedule =
     (if js_le (Finite (real m)) dur
      then (case add_raw m monthlyUnlock schedule of
              Inl e \<Rightarrow> Inl e
            | Inr schedule' \<Rightarrow> unlock_loop monthlyUnlock dur (Suc m) schedule')
      else Inr schedule)"
  by pat_completeness auto
termination
  by (relation "measure (\<lambda>(u, d, m, s). length s - m)")
     (auto simp: add_raw_def split: if_splits)

declare unlock_loop.simps [simp del]

text \<open>The body of \<open>Object.entries(distribution).forEach(([category, data]) => ...)\<close>.\<close>

definition unlock_category ::
  "jsnum \<Rightarrow> DistributionData \<Rightarrow> raw_point list \<Rightarrow> failure + raw_point list" where
  "unlock_category supply data schedule =
     (let tokenAmount = js_floor (js_div (js_mul supply (percentage data)) (Finite 100));
          tgeAmount = js_floor (js_div (js_mul tokenAmount (tge data)) (Finite 100));
          remainingAmount = js_sub tokenAmount tgeAmount;
          monthlyUnlock =
            (if js_gt (duration data) (Finite 0) then js_div remainingAmount (duration data)
             else Finite 0)
      in case add_raw 0 tgeAmount schedule of
           Inl e \<Rightarrow> Inl e
         | Inr schedule' \<Rightarrow>
             (if js_gt (duration data) (Finite 0)
              then unlock_loop monthlyUnlock (duration data) 1 schedule'
              else Inr schedule'))"

fun unlock_all :: "jsnum \<Rightarrow> Distribution \<Rightarrow> raw_point list \<Rightarrow> failure + raw_point list" where
  "unlock_all supply [] schedule = Inr schedule"
| "unlock_all supply ((category, data) # rest) schedule =
     (case unlock_category supply data schedule of
        Inl e \<Rightarrow> Inl e
      | Inr schedule' \<Rightarrow> unlock_all supply rest schedule')"

text \<open>
  \<open>let cumulative = 0; return schedule.map((point) => { cumulative += point.rawCirculating; ... })\<close>
\<close>

fun cumulate :: "jsnum \<Rightarrow> jsnum \<Rightarrow> raw_point list \<Rightarrow> unlock_point list" where
  "cumulate supply cumulative [] = []"
| "cumulate supply cumulative (p # ps) =
     (let cumulative' = js_add cumulative (rawCirculating p);
          actualCirculating = js_min cumulative' supply
      in \<lparr>month = month p, circulating = actualCirculating,
          percentCirculating = js_mul (js_div actualCirculating supply) (Finite 100)\<rparr>
         # cumulate supply cumulative' ps)"

definition generateUnlockSchedule :: "planner_state \<Rightarrow> failure + unlock_point list" where
  "generateUnlockSchedule st =
     (let months = 48 in
      case unlock_all (totalSupply st) (distribution st) (empty_schedule months) of
        Inl e \<Rightarrow> Inl e
      | Inr schedule \<Rightarrow> Inr (cumulate (totalSupply st) (Finite 0) schedule))"

section \<open>Metrics and warnings\<close>

record Metrics =
  tgeCirculating :: jsnum
  tgeCirculatingPercent :: jsnum
  initialMarketCap :: jsnum
  fdvToMcapRatio :: jsnum
  warnings :: "string list"

text \<open>
  The entries of the array literal of warnings: \<open>cond && "message"\<close> is \<open>false\<close> or the
  message, and \<open>.filter(Boolean)\<close> keeps the truthy entries (a string that is not empty).
\<close>

datatype js_value = JFalse | JString string

definition js_and :: "bool \<Rightarrow> string \<Rightarrow> js_value" where
  "js_and c s = (if c then JString s else JFalse)"

fun truthy :: "js_value \<Rightarrow> bool" where
  "truthy JFalse = False"
| "truthy (JString s) = (s \<noteq> [])"

fun strings_of :: "js_value list \<Rightarrow> string list" where
  "strings_of [] = []"
| "strings_of (JFalse # vs) = strings_of vs"
| "strings_of (JString s # vs) = s # strings_of vs"

text \<open>
  \<open>calculateMetrics\<close>. The reads \<open>unlockSchedule[0].circulating\<close>,
  \<open>distribution.teamAndAdvisors.percentage\<close> and \<open>distribution.liquidityPool.percentage\<close>
  throw a TypeError when the element or the key is missing. The local constants
  \<open>tgeCirculating\<close> and \<open>tgeCirculatingPercent\<close> of the source are \<open>tgeCirc\<close> and
  \<open>tgePercent\<close> here.
\<close>

definition calculateMetrics :: "planner_state \<Rightarrow> failure + Metrics" where
  "calculateMetrics st =
     (case generateUnlockSchedule st of
        Inl e \<Rightarrow> Inl e
      | Inr unlockSchedule \<Rightarrow>
     (case unlockSchedule of
        [] \<Rightarrow> Inl TypeError
      | first # rest \<Rightarrow>
     (case map_of (distribution st) ''teamAndAdvisors'' of
        None \<Rightarrow> Inl TypeError
      | Some teamAndAdvisors \<Rightarrow>
     (case map_of (distribution st) ''liquidityPool'' of
        None \<Rightarrow> Inl TypeError
      | Some liquidityPool \<Rightarrow>
          (let tgeCirc = circulating first;
               tgePercent = js_mul (js_div tgeCirc (totalSupply st)) (Finite 100)
           in Inr
             \<lparr>tgeCirculating = tgeCirc,
              tgeCirculatingPercent = tgePercent,
              initialMarketCap = js_mul tgeCirc (initialTokenPrice st),
              fdvToMcapRatio =
                (if js_gt tgeCirc (Finite 0)
                 then js_div (fdv st) (js_mul tgeCirc (initialTokenPrice st))
                 else PositiveInfinity),
              warnings = strings_of (filter truthy
                [js_and (js_gt tgePercent (Finite 25))
                   ''High TGE unlock may cause price instability'',
                 js_and (js_gt tgeCirc (Finite 0)
                     \<and> js_gt (js_div (fdv st) (js_mul tgeCirc (initialTokenPrice st)))
                          (Finite 100))
                   ''High FDV/MCap ratio indicates significant future dilution'',
                 js_and (js_gt (percentage teamAndAdvisors) (Finite 20))
                   ''Team allocation appears high'',
                 js_and (js_lt (percentage liquidityPool) (Finite 5))
                   ''Low liquidity allocation may cause price volatility''])\<rparr>)))))"

section \<open>Editing the distribution\<close>

text \<open>\<open>field: keyof DistributionData\<close>\<close>

datatype field = Percentage | Tge | Duration

text \<open>\<open>Object.entries(d).filter(([cat]) => cat !== category)\<close>\<close>

definition other_entries :: "string \<Rightarrow> Distribution \<Rightarrow> Distribution" where
  "other_entries category d = filter (\<lambda>(cat, data). cat \<noteq> category) d"

text \<open>
  \<open>.reduce((sum, data) => sum + data.percentage, 0)\<close>: the percentages added from the
  left, every partial sum rounded.
\<close>

definition total_percentage :: "Distribution \<Rightarrow> jsnum" where
  "total_percentage d = foldl (\<lambda>sum (cat, data). js_add sum (percentage data)) (Finite 0) d"

text \<open>
  \<open>.reduce((max, curr) => curr[1].percentage > max[1].percentage ? curr : max)\<close> on an
  array with the first entry \<open>first\<close>.
\<close>

definition largest_entry ::
  "(string \<times> DistributionData) \<Rightarrow> Distribution \<Rightarrow> string \<times> DistributionData" where
  "largest_entry first rest =
     foldl (\<lambda>mx curr. if js_gt (percentage (snd curr)) (percentage (snd mx)) then curr else mx)
       first rest"

text \<open>\<open>let scaledPercentage = Math.round(data.percentage * scale * 10) / 10\<close>\<close>

definition scaledPercentage :: "jsnum \<Rightarrow> jsnum \<Rightarrow> jsnum" where
  "scaledPercentage p scale = js_div (js_round (js_mul (js_mul p scale) (Finite 10))) (Finite 10)"

text \<open>
  The \<open>reduce\<close> that builds \<open>newDistribution\<close>: the target gets the rounded value, every
  other entry its scaled percentage.
\<close>

definition rescale :: "string \<Rightarrow> jsnum \<Rightarrow> jsnum \<Rightarrow> Distribution \<Rightarrow> Distribution" where
  "rescale category numValue scale d =
     map (\<lambda>(cat, data).
            if cat = category then (cat, data\<lparr>percentage := round1 numValue\<rparr>)
            else (cat, data\<lparr>percentage := scaledPercentage (percentage data) scale\<rparr>))
       d"

text \<open>
  \<open>handleDistributionChange(category, field, value)\<close>, as a function of the current
  distribution to the one passed to \<open>setDistribution\<close>.
\<close>

definition handleDistributionChange ::
  "Distribution \<Rightarrow> string \<Rightarrow> field \<Rightarrow> jsnum \<Rightarrow> failure + Distribution" where
  "handleDistributionChange d category fld v =
     (let numValue = js_max (Finite 0) v in
      case fld of
        Percentage \<Rightarrow>
          (let otherCategories = other_entries category d;
               otherTotal = total_percentage otherCategories
           in case map_of d category of
                None \<Rightarrow> Inl TypeError
              | Some current \<Rightarrow>
                  if js_le (js_add otherTotal numValue) (Finite 100)
                  then Inr (obj_set category (current\<lparr>percentage := round1 numValue\<rparr>) d)
                  else
                    (let scale = js_div (js_sub (Finite 100) numValue) otherTotal;
                         newDistribution = rescale category numValue scale d;
                         newTotal = total_percentage newDistribution
                     in if \<not> js_eq newTotal (Finite 100)
                        then (case other_entries category newDistribution of
                                [] \<Rightarrow> Inl TypeError
                              | first # rest \<Rightarrow>
                                  (let largestCategory = largest_entry first rest
                                   in if fst largestCategory \<noteq> []
                                      then Inr (obj_modify (fst largestCategory)
                                                 (\<lambda>data. data\<lparr>percentage :=
                                                    js_add (percentage data)
                                                      (round1 (js_sub (Finite 100) newTotal))\<rparr>)
                                                 newDistribution)
                                      else Inr newDistribution))
                        else Inr newDistribution))
      | Tge \<Rightarrow>
          (case map_of d category of
             None \<Rightarrow> Inl UndefinedField
           | Some current \<Rightarrow>
               Inr (obj_set category
                     (current\<lparr>tge := js_min (Finite 100) (js_max (Finite 0) (round1 numValue))\<rparr>) d))
      | Duration \<Rightarrow>
          (case map_of d category of
             None \<Rightarrow> Inl UndefinedField
           | Some current \<Rightarrow>
               Inr (obj_set category
                     (current\<lparr>duration := js_max (Finite 0) (js_round numValue)\<rparr>) d)))"

section \<open>Closed forms\<close>

text \<open>
  The constants \<open>tokenAmount\<close>, \<open>tgeAmount\<close> and \<open>monthlyUnlock\<close> of one category, as
  \<open>unlock_category\<close> computes them.
\<close>

definition tokenAmount :: "jsnum \<Rightarrow> DistributionData \<Rightarrow> jsnum" where
  "tokenAmount supply data = js_floor (js_div (js_mul supply (percentage data)) (Finite 100))"

definition tgeAmount :: "jsnum \<Rightarrow> DistributionData \<Rightarrow> jsnum" where
  "tgeAmount supply data =
     js_floor (js_div (js_mul (tokenAmount supply data) (tge data)) (Finite 100))"

definition monthlyUnlock :: "jsnum \<Rightarrow> DistributionData \<Rightarrow> jsnum" where
  "monthlyUnlock supply data =
     js_div (js_sub (tokenAmount supply data) (tgeAmount supply data)) (duration data)"

text \<open>
  The accumulator \<open>r\<close> of slot \<open>j\<close> after one category: the TGE amount is added to slot
  \<open>0\<close>, the monthly unlock to the slots from \<open>1\<close> to \<open>duration\<close>; and after all the
  categories, in their order.
\<close>

definition credited :: "jsnum \<Rightarrow> DistributionData \<Rightarrow> nat \<Rightarrow> jsnum \<Rightarrow> jsnum" where
  "credited supply data j r =
     (if j = 0 then js_add r (tgeAmount supply data)
      else if js_le (Finite (real j)) (duration data) then js_add r (monthlyUnlock supply data)
      else r)"

definition credited_all :: "jsnum \<Rightarrow> Distribution \<Rightarrow> nat \<Rightarrow> jsnum \<Rightarrow> jsnum" where
  "credited_all supply d j r = foldl (\<lambda>r (category, data). credited supply data j r) r d"

text \<open>
  The schedule after the accumulator of every slot \<open>j\<close>, counted from \<open>i\<close>, has been
  changed by \<open>f j\<close>.
\<close>

fun bump :: "(nat \<Rightarrow> jsnum \<Rightarrow> jsnum) \<Rightarrow> nat \<Rightarrow> raw_point list \<Rightarrow> raw_point list" where
  "bump f i [] = []"
| "bump f i (p # ps) = p\<lparr>rawCirculating := f i (rawCirculating p)\<rparr> # bump f (Suc i) ps"

text \<open>
  The default distribution after \<open>handleDistributionChange("development", "duration", 49)\<close>.
\<close>

definition long_vesting :: Distribution where
  "long_vesting =
     [(''publicSale'', \<lparr>percentage = Finite 20, tge = Finite 10, duration = Finite 12\<rparr>),
      (''privateRounds'', \<lparr>percentage = Finite 15, tge = Finite 5, duration = Finite 24\<rparr>),
      (''teamAndAdvisors'', \<lparr>percentage = Finite 15, tge = Finite 0, duration = Finite 36\<rparr>),
      (''development'', \<lparr>percentage = Finite 20, tge = Finite 0, duration = Finite 49\<rparr>),
      (''ecosystem'', \<lparr>percentage = Finite 15, tge = Finite 5, duration = Finite 36\<rparr>),
      (''treasury'', \<lparr>percentage = Finite 10, tge = Finite 0, duration = Finite 48\<rparr>),
      (''liquidityPool'', \<lparr>percentage = Finite 5, tge = Finite 20, duration = Finite 24\<rparr>)]"

text \<open>The TGE amounts of the categories, added in their order.\<close>

definition tge_total :: "jsnum \<Rightarrow> Distribution \<Rightarrow> jsnum" where
  "tge_total supply d =
     foldl (\<lambda>sum (category, data). js_add sum (tgeAmount supply data)) (Finite 0) d"

text \<open>
  A distribution whose categories other than publicSale sum to 100: the default one
  after publicSale has been set to 0 and liquidityPool to 25.
\<close>

definition others_at_100 :: Distribution where
  "others_at_100 =
     [(''publicSale'', \<lparr>percentage = Finite 0, tge = Finite 10, duration = Finite 12\<rparr>),
      (''privateRounds'', \<lparr>percentage = Finite 15, tge = Finite 5, duration = Finite 24\<rparr>),
      (''teamAndAdvisors'', \<lparr>percentage = Finite 15, tge = Finite 0, duration = Finite 36\<rparr>),
      (''development'', \<lparr>percentage = Finite 20, tge = Finite 0, duration = Finite 48\<rparr>),
      (''ecosystem'', \<lparr>percentage = Finite 15, tge = Finite 5, duration = Finite 36\<rparr>),
      (''treasury'', \<lparr>percentage = Finite 10, tge = Finite 0, duration = Finite 48\<rparr>),
      (''liquidityPool'', \<lparr>percentage = Finite 25, tge = Finite 20, duration = Finite 24\<rparr>)]"

text \<open>
  The default distribution after \<open>handleDistributionChange("publicSale", "percentage", 20.8)\<close>:
  20.8, 14.9, 14.9, 19.6, 14.9, 9.9 and 5, as doubles.
\<close>

definition rebalanced_208 :: Distribution where
  "rebalanced_208 =
     [(''publicSale'', \<lparr>percentage = Finite (5854679515581645 / 281474976710656),
         tge = Finite 10, duration = Finite 12\<rparr>),
      (''privateRounds'', \<lparr>percentage = Finite (8387954305977549 / 562949953421312),
         tge = Finite 5, duration = Finite 24\<rparr>),
      (''teamAndAdvisors'', \<lparr>percentage = Finite (8387954305977549 / 562949953421312),
         tge = Finite 0, duration = Finite 36\<rparr>),
      (''development'', \<lparr>percentage = Finite (2758454771764429 / 140737488355328),
         tge = Finite 0, duration = Finite 48\<rparr>),
      (''ecosystem'', \<lparr>percentage = Finite (8387954305977549 / 562949953421312),
         tge = Finite 5, duration = Finite 36\<rparr>),
      (''treasury'', \<lparr>percentage = Finite (5573204538870989 / 562949953421312),
         tge = Finite 0, duration = Finite 48\<rparr>),
      (''liquidityPool'', \<lparr>percentage = Finite 5, tge = Finite 20, duration = Finite 24\<rparr>)]"

text \<open>
  The default distribution after \<open>handleDistributionChange("publicSale", "percentage", 120)\<close>:
  120, -3.7, -3.7, -5, -3.7, -2.5 and -1.4, as doubles.
\<close>

definition rebalanced_120 :: Distribution where
  "rebalanced_120 =
     [(''publicSale'', \<lparr>percentage = Finite 120, tge = Finite 10, duration = Finite 12\<rparr>),
      (''privateRounds'', \<lparr>percentage = Finite (- (4165829655317709 / 1125899906842624)),
         tge = Finite 5, duration = Finite 24\<rparr>),
      (''teamAndAdvisors'', \<lparr>percentage = Finite (- (4165829655317709 / 1125899906842624)),
         tge = Finite 0, duration = Finite 36\<rparr>),
      (''development'', \<lparr>percentage = Finite (- 5), tge = Finite 0, duration = Finite 48\<rparr>),
      (''ecosystem'', \<lparr>percentage = Finite (- (4165829655317709 / 1125899906842624)),
         tge = Finite 5, duration = Finite 36\<rparr>),
      (''treasury'', \<lparr>percentage = Finite (- (5 / 2)), tge = Finite 0, duration = Finite 48\<rparr>),
      (''liquidityPool'', \<lparr>percentage = Finite (- (3152519739159347 / 2251799813685248)),
         tge = Finite 20, duration = Finite 24\<rparr>)]"

text \<open>A number that is not a fraction: an integer, an infinity or NaN.\<close>

fun is_integral :: "jsnum \<Rightarrow> bool" where
  "is_integral (Finite x) = (of_int \<lfloor>x\<rfloor> = x)"
| "is_integral x = True"

section \<open>Properties of the rounding\<close>

lemma bits_bounds: "0 < n \<Longrightarrow> 2 ^ (bits n - 1) \<le> n \<and> n < 2 ^ bits n"
proof (induction n rule: bits.induct)
  case (1 n)
  show ?case
  proof (cases "n div 2 = 0")
    case True
    with "1.prems" have "n = 1" by linarith
    then show ?thesis by (simp add: bits.simps [of "Suc 0"] bits.simps [of 0])
  next
    case False
    with "1.IH" "1.prems"
    have ih: "2 ^ (bits (n div 2) - 1) \<le> n div 2" "n div 2 < 2 ^ bits (n div 2)"
      by simp_all
    have pos: "0 < bits (n div 2)"
      using False by (simp add: bits.simps [of "n div 2"])
    have b: "bits n = Suc (bits (n div 2))"
      using "1.prems" by (simp add: bits.simps [of n])
    have "(2::nat) ^ bits (n div 2) = 2 * 2 ^ (bits (n div 2) - 1)"
      using pos by (cases "bits (n div 2)") simp_all
    with ih(1) have "2 ^ bits (n div 2) \<le> 2 * (n div 2)" by linarith
    then have "2 ^ bits (n div 2) \<le> n" by linarith
    moreover from ih(2) have "n < 2 * 2 ^ bits (n div 2)" by linarith
    ultimately show ?thesis by (simp add: b)
  qed
qed

lemma bits_pos: "0 < n \<Longrightarrow> 0 < bits n"
  by (simp add: bits.simps [of n])

lemma exponent_bounds:
  assumes "0 < x"
  shows "2 powi exponent x \<le> x" and "x < 2 powi (exponent x + 1)"
proof -
  have "2 powi exponent x \<le> x \<and> x < 2 powi (exponent x + 1)"
  proof (cases "1 \<le> x")
    case True
    define n where "n = nat \<lfloor>x\<rfloor>"
    have n: "0 < n" "real n \<le> x" "x < real n + 1"
      using True by (simp_all add: n_def)
    note b = bits_bounds [OF n(1)] bits_pos [OF n(1)]
    have e: "exponent x = int (bits n) - 1"
      using True by (simp add: exponent_def n_def)
    have "2 powi exponent x = (2::real) ^ (bits n - 1)"
      using b(2) by (simp add: e power_int_def nat_diff_distrib')
    also have "\<dots> = real (2 ^ (bits n - 1))" by simp
    also have "\<dots> \<le> real n" using b(1) by (intro of_nat_mono) simp
    finally have lower: "2 powi exponent x \<le> x" using n(2) by linarith
    have "n + 1 \<le> 2 ^ bits n" using b(1) by simp
    then have "real (n + 1) \<le> real (2 ^ bits n)" by (intro of_nat_mono)
    then have "x < 2 ^ bits n" using n(3) by simp
    moreover have "2 powi (exponent x + 1) = (2::real) ^ bits n"
      by (simp add: e)
    ultimately show ?thesis using lower by simp
  next
    case False
    define y where "y = 1 / x"
    define m where "m = nat (\<lceil>y\<rceil> - 1)"
    have y: "1 < y" using False assms by (simp add: y_def)
    then have c: "2 \<le> \<lceil>y\<rceil>" by linarith
    have m: "0 < m" "real m < y" "y \<le> real m + 1"
      using c by (simp_all add: m_def) linarith+
    note b = bits_bounds [OF m(1)] bits_pos [OF m(1)]
    have e: "exponent x = - int (bits m)"
      using False by (simp add: exponent_def m_def y_def)
    have "m + 1 \<le> 2 ^ bits m" using b(1) by simp
    then have "real (m + 1) \<le> real (2 ^ bits m)" by (intro of_nat_mono)
    then have "y \<le> 2 ^ bits m" using m(3) by simp
    then have "1 / 2 ^ bits m \<le> x"
      using assms by (simp add: y_def field_simps)
    then have lower: "2 powi exponent x \<le> x"
      by (simp add: e power_int_minus_divide)
    have "real (2 ^ (bits m - 1)) \<le> real m" using b(1) by (intro of_nat_mono) simp
    then have "(2::real) ^ (bits m - 1) \<le> real m" by simp
    then have "2 ^ (bits m - 1) < y" using m(2) by linarith
    then have "x < 1 / 2 ^ (bits m - 1)"
      using assms by (simp add: y_def field_simps)
    moreover have "2 powi (exponent x + 1) = 1 / (2::real) ^ (bits m - 1)"
    proof -
      have "exponent x + 1 = - int (bits m - 1)" using b(2) by (simp add: e)
      then show ?thesis by (simp only: power_int_minus_divide power_int_of_nat)
    qed
    ultimately show ?thesis using lower by simp
  qed
  then show "2 powi exponent x \<le> x" and "x < 2 powi (exponent x + 1)" by simp_all
qed

lemma powi_less_cancel: "(2::real) powi a < 2 powi b \<Longrightarrow> a < b"
  by (rule ccontr) (simp add: not_less power_int_increasing [of b a 2, THEN leD])

lemma exponent_unique:
  assumes "0 < x" "2 powi e \<le> x" "x < 2 powi (e + 1)"
  shows "exponent x = e"
proof -
  note b = exponent_bounds [OF assms(1)]
  have "(2::real) powi e < 2 powi (exponent x + 1)" using assms(2) b(2) by linarith
  then have "e < exponent x + 1" by (rule powi_less_cancel)
  moreover have "(2::real) powi exponent x < 2 powi (e + 1)" using assms(3) b(1) by linarith
  then have "exponent x < e + 1" by (rule powi_less_cancel)
  ultimately show ?thesis by linarith
qed

lemma exponent_mono:
  assumes "0 < x" "x \<le> y"
  shows "exponent x \<le> exponent y"
proof -
  have y: "0 < y" using assms by linarith
  have "(2::real) powi exponent x < 2 powi (exponent y + 1)"
    using exponent_bounds(1) [OF assms(1)] exponent_bounds(2) [OF y] assms(2) by linarith
  then have "exponent x < exponent y + 1" by (rule powi_less_cancel)
  then show ?thesis by linarith
qed

lemma round_even_of_int [simp]: "round_even (of_int n) = n"
  by (simp add: round_even_def)

lemma round_even_cases:
  "round_even m = \<lfloor>m\<rfloor> \<and> m - of_int \<lfloor>m\<rfloor> \<le> 1 / 2
   \<or> round_even m = \<lfloor>m\<rfloor> + 1 \<and> 1 / 2 \<le> m - of_int \<lfloor>m\<rfloor>"
  by (simp add: round_even_def Let_def)

lemma round_even_error: "\<bar>of_int (round_even m) - m\<bar> \<le> 1 / 2"
  using round_even_cases [of m] by (auto; linarith)

lemma round_even_mono:
  assumes "a \<le> b"
  shows "round_even a \<le> round_even b"
proof (cases "\<lfloor>a\<rfloor> = \<lfloor>b\<rfloor>")
  case True
  then show ?thesis
    using assms by (auto simp: round_even_def Let_def)
next
  case False
  with assms have "\<lfloor>a\<rfloor> + 1 \<le> \<lfloor>b\<rfloor>"
    using floor_mono [OF assms] by linarith
  moreover have "round_even a \<le> \<lfloor>a\<rfloor> + 1" "\<lfloor>b\<rfloor> \<le> round_even b"
    using round_even_cases [of a] round_even_cases [of b] by auto
  ultimately show ?thesis by linarith
qed

lemma round_even_le: "m \<le> of_int k \<Longrightarrow> round_even m \<le> k"
  using round_even_mono [of m "of_int k"] by simp

lemma round_even_ge: "of_int k \<le> m \<Longrightarrow> k \<le> round_even m"
  using round_even_mono [of "of_int k" m] by simp

lemma ulp_binade: "ulp x = 2 powi (binade x - 52)"
  by (simp add: ulp_def)

lemma ulp_pos [simp]: "0 < ulp x"
  by (simp add: ulp_def)

lemma ulp_nonneg [simp]: "0 \<le> ulp x"
  using ulp_pos [of x] by (simp only: less_imp_le)

lemma ulp_nonzero [simp]: "ulp x \<noteq> 0"
  using ulp_pos [of x] by linarith

lemma binade_mono: "0 < x \<Longrightarrow> x \<le> y \<Longrightarrow> binade x \<le> binade y"
  using exponent_mono [of x y] by (simp add: binade_def)

lemma binade_upper: "0 < x \<Longrightarrow> x < 2 powi (binade x + 1)"
proof -
  assume x: "0 < x"
  have "(2::real) powi (exponent x + 1) \<le> 2 powi (binade x + 1)"
    by (intro power_int_increasing) (simp_all add: binade_def)
  with exponent_bounds(2) [OF x] show ?thesis by linarith
qed

lemma binade_lower: "0 < x \<Longrightarrow> - 1022 < binade x \<Longrightarrow> 2 powi binade x \<le> x"
  using exponent_bounds(1) [of x] by (simp add: binade_def max_def split: if_splits)

lemma powi_52: "(2::real) powi (k - 52) * 2 ^ 52 = 2 powi k"
proof -
  have "(2::real) powi (k - 52) * 2 powi 52 = 2 powi (k - 52 + 52)"
    by (subst power_int_add) simp_all
  then show ?thesis by simp
qed

lemma powi_53: "(2::real) powi (k - 52) * 2 ^ 53 = 2 powi (k + 1)"
proof -
  have "(2::real) powi (k - 52) * 2 powi 53 = 2 powi (k - 52 + 53)"
    by (subst power_int_add) simp_all
  then show ?thesis by (simp add: add.commute)
qed

lemma round64_nonneg: "0 \<le> x \<Longrightarrow> 0 \<le> round64 x"
proof -
  assume "0 \<le> x"
  then have "of_int 0 \<le> x / ulp x" by simp
  then have "0 \<le> round_even (x / ulp x)" by (rule round_even_ge)
  then show ?thesis by (simp add: round64_def)
qed

lemma round64_upper:
  assumes "0 < x"
  shows "round64 x \<le> 2 powi (binade x + 1)"
proof -
  have "x / ulp x \<le> 2 powi (binade x + 1) / ulp x"
    using binade_upper [OF assms] by (intro divide_right_mono) simp_all
  also have "\<dots> = of_int (2 ^ 53)"
    using powi_53 [of "binade x"] by (simp add: ulp_binade field_simps)
  finally have "round_even (x / ulp x) \<le> 2 ^ 53" by (rule round_even_le)
  then have "real_of_int (round_even (x / ulp x)) \<le> of_int (2 ^ 53)"
    by (intro of_int_le_iff [THEN iffD2])
  then have "round64 x \<le> 2 ^ 53 * ulp x"
    by (simp add: round64_def)
  then show ?thesis
    using powi_53 [of "binade x"] by (simp add: ulp_binade mult.commute)
qed

lemma round64_lower:
  assumes "0 < x" "2 powi binade x \<le> x"
  shows "2 powi binade x \<le> round64 x"
proof -
  have "2 powi binade x / ulp x \<le> x / ulp x"
    using assms by (intro divide_right_mono) simp_all
  moreover have "2 powi binade x / ulp x = of_int (2 ^ 52)"
    using powi_52 [of "binade x"] by (simp add: ulp_binade field_simps)
  ultimately have "of_int (2 ^ 52) \<le> x / ulp x" by simp
  then have "2 ^ 52 \<le> round_even (x / ulp x)" by (rule round_even_ge)
  then have "of_int (2 ^ 52) \<le> real_of_int (round_even (x / ulp x))"
    by (intro of_int_le_iff [THEN iffD2])
  then have "2 ^ 52 * ulp x \<le> round64 x"
    by (simp add: round64_def)
  then show ?thesis
    using powi_52 [of "binade x"] by (simp add: ulp_binade mult.commute)
qed

lemma round64_mono:
  assumes "0 < x" "x \<le> y"
  shows "round64 x \<le> round64 y"
proof (cases "binade x = binade y")
  case True
  then have u: "ulp x = ulp y" by (simp add: ulp_binade)
  have "x / ulp y \<le> y / ulp y"
    using assms by (intro divide_right_mono) simp_all
  then have "round_even (x / ulp y) \<le> round_even (y / ulp y)" by (rule round_even_mono)
  then have "real_of_int (round_even (x / ulp y)) \<le> of_int (round_even (y / ulp y))"
    by simp
  then show ?thesis
    unfolding round64_def u by (intro mult_right_mono) simp_all
next
  case False
  with binade_mono [OF assms] have less: "binade x < binade y" by linarith
  have y: "0 < y" using assms by linarith
  have "- 1022 \<le> binade x" by (simp add: binade_def)
  with less have "- 1022 < binade y" by linarith
  then have "2 powi binade y \<le> round64 y"
    using y by (intro round64_lower binade_lower)
  moreover have "(2::real) powi (binade x + 1) \<le> 2 powi binade y"
    using less by (intro power_int_increasing) simp_all
  ultimately show ?thesis
    using round64_upper [OF assms(1)] by linarith
qed

lemma round64_error: "\<bar>round64 x - x\<bar> \<le> ulp x / 2"
proof -
  have "round64 x - x = (of_int (round_even (x / ulp x)) - x / ulp x) * ulp x"
    by (simp add: round64_def left_diff_distrib)
  then have "\<bar>round64 x - x\<bar> = \<bar>of_int (round_even (x / ulp x)) - x / ulp x\<bar> * ulp x"
    by (simp add: abs_mult)
  also have "\<dots> \<le> 1 / 2 * ulp x"
    by (intro mult_right_mono round_even_error) simp
  finally show ?thesis by simp
qed

lemma round64_0 [simp]: "round64 0 = 0"
  by (simp add: round64_def round_even_def)

lemma round64_grid_less:
  fixes n :: int
  assumes "0 < n" "n < 2 ^ 53" "- 1074 \<le> k"
  shows "round64 (of_int n * 2 powi k) = of_int n * 2 powi k"
proof -
  define x :: real where "x = of_int n * 2 powi k"
  have x: "0 < x" using assms(1) by (simp add: x_def)
  have "real_of_int n < of_int (2 ^ 53)" using assms(2) by (intro of_int_less_iff [THEN iffD2])
  then have "x < 2 ^ 53 * 2 powi k" by (simp add: x_def)
  also have "\<dots> = 2 powi (k + 53)"
    using power_int_add [of "2::real" k 53] by (simp add: mult.commute)
  finally have "(2::real) powi exponent x < 2 powi (k + 53)"
    using exponent_bounds(1) [OF x] by linarith
  then have "exponent x < k + 53" by (rule powi_less_cancel)
  then have b: "binade x \<le> k + 52" using assms(3) by (simp add: binade_def)
  define j where "j = nat (k + 52 - binade x)"
  have "(2::real) powi k = 2 powi (binade x - 52) * 2 powi (int j)"
    using b by (subst power_int_add [symmetric]) (simp_all add: j_def)
  then have "x = of_int (n * 2 ^ j) * ulp x"
    by (simp add: x_def ulp_def mult.commute)
  then have grid: "x = of_int (n * 2 ^ j) * ulp x" .
  then have "x / ulp x = of_int (n * 2 ^ j)"
    by (simp add: divide_eq_eq)
  then have "round64 x = of_int (n * 2 ^ j) * ulp x"
    by (simp only: round64_def round_even_of_int)
  also have "\<dots> = x" by (rule grid [symmetric])
  finally show ?thesis unfolding x_def .
qed

lemma round64_grid:
  fixes n :: int
  assumes "0 \<le> n" "n \<le> 2 ^ 53" "- 1074 \<le> k"
  shows "round64 (of_int n * 2 powi k) = of_int n * 2 powi k"
proof -
  consider "n = 0" | "0 < n" "n < 2 ^ 53" | "n = 2 ^ 53" using assms by linarith
  then show ?thesis
  proof cases
    case 1
    then show ?thesis by simp
  next
    case 2
    then show ?thesis using assms(3) by (rule round64_grid_less)
  next
    case 3
    have "of_int n * 2 powi k = of_int (2 ^ 52) * (2::real) powi (k + 1)"
      using power_int_add [of "2::real" k 1] by (simp add: 3)
    moreover have "round64 (of_int (2 ^ 52) * 2 powi (k + 1)) = of_int (2 ^ 52) * 2 powi (k + 1)"
      using assms(3) by (intro round64_grid_less) simp_all
    ultimately show ?thesis by simp
  qed
qed

lemma round64_on_grid:
  assumes "0 < x"
  shows "\<exists>n. round64 x = of_int n * 2 powi (binade x - 52) \<and> 0 \<le> n \<and> n \<le> 2 ^ 53"
proof -
  let ?n = "round_even (x / ulp x)"
  have "of_int 0 \<le> x / ulp x" using assms by simp
  then have "0 \<le> ?n" by (rule round_even_ge)
  moreover have "?n \<le> 2 ^ 53"
  proof -
    have "x / ulp x \<le> 2 powi (binade x + 1) / ulp x"
      using binade_upper [OF assms] by (intro divide_right_mono) simp_all
    also have "\<dots> = of_int (2 ^ 53)"
      using powi_53 [of "binade x"] by (simp add: ulp_binade field_simps)
    finally show ?thesis by (rule round_even_le)
  qed
  ultimately show ?thesis
    by (intro exI [of _ ?n]) (simp add: round64_def ulp_def)
qed

lemma round64_idem: "0 \<le> x \<Longrightarrow> round64 (round64 x) = round64 x"
proof (cases "x = 0")
  case False
  assume "0 \<le> x"
  with False have "0 < x" by simp
  from round64_on_grid [OF this] obtain n where
    n: "round64 x = of_int n * 2 powi (binade x - 52)" "0 \<le> n" "n \<le> 2 ^ 53" by blast
  have "- 1074 \<le> binade x - 52" by (simp add: binade_def)
  with n(2,3) show ?thesis unfolding n(1) by (intro round64_grid)
qed simp

lemma nearest_0 [simp]: "nearest 0 = 0"
  by (simp add: nearest_def)

lemma nearest_minus: "nearest (- x) = - nearest x"
  by (simp add: nearest_def)

lemma nearest_nonneg: "0 \<le> x \<Longrightarrow> 0 \<le> nearest x"
  by (simp add: nearest_def round64_nonneg)

lemma nearest_nonpos: "x \<le> 0 \<Longrightarrow> nearest x \<le> 0"
  using nearest_nonneg [of "- x"] by (simp add: nearest_minus)

lemma nearest_mono:
  assumes "x \<le> y"
  shows "nearest x \<le> nearest y"
proof -
  consider "0 < x" | "x \<le> 0" "0 \<le> y" | "y < 0" using assms by linarith
  then show ?thesis
  proof cases
    case 1
    then show ?thesis using assms round64_mono [of x y] by (simp add: nearest_def)
  next
    case 2
    then show ?thesis using nearest_nonneg [of y] nearest_nonpos [of x] by linarith
  next
    case 3
    then have "round64 (- y) \<le> round64 (- x)"
      using assms by (intro round64_mono) simp_all
    then show ?thesis using 3 assms by (simp add: nearest_def)
  qed
qed

lemma nearest_idem: "nearest (nearest x) = nearest x"
proof (cases "0 \<le> x")
  case True
  then show ?thesis
    using round64_nonneg [of x] by (simp add: nearest_def round64_idem)
next
  case False
  then have "0 \<le> - x" by simp
  then have "nearest (nearest (- x)) = nearest (- x)"
    using round64_nonneg [of "- x"] by (simp add: nearest_def round64_idem)
  then show ?thesis by (simp add: nearest_minus)
qed

lemma nearest_grid:
  fixes n :: int
  assumes "\<bar>n\<bar> \<le> 2 ^ 53" "- 1074 \<le> k"
  shows "nearest (of_int n * 2 powi k) = of_int n * 2 powi k"
proof (cases "0 \<le> n")
  case True
  then have "0 \<le> real_of_int n * 2 powi k" by simp
  then show ?thesis
    using True assms by (simp add: nearest_def round64_grid)
next
  case False
  then have "0 \<le> - n" "- n \<le> 2 ^ 53" using assms by simp_all
  then have "round64 (of_int (- n) * 2 powi k) = of_int (- n) * 2 powi k"
    using assms(2) by (intro round64_grid)
  moreover have "\<not> 0 \<le> real_of_int n * 2 powi k"
    using False by (simp add: mult_less_0_iff not_le)
  ultimately show ?thesis by (simp add: nearest_def)
qed

lemma nearest_of_int: "\<bar>n\<bar> \<le> 2 ^ 53 \<Longrightarrow> nearest (of_int n) = of_int n"
  using nearest_grid [of n 0] by simp

lemma nearest_error: "\<bar>nearest x - x\<bar> \<le> ulp \<bar>x\<bar> / 2"
proof (cases "0 \<le> x")
  case True
  then show ?thesis using round64_error [of x] by (simp add: nearest_def)
next
  case False
  have "\<bar>- round64 (- x) - x\<bar> = \<bar>round64 (- x) - (- x)\<bar>" by linarith
  with False show ?thesis using round64_error [of "- x"] by (simp add: nearest_def)
qed

section \<open>The accumulation loop\<close>

lemma js_le_Finite [simp]: "js_le (Finite x) (Finite y) = (x \<le> y)"
  by (auto simp: js_le_def js_eq_def)

lemma js_gt_Finite [simp]: "js_gt (Finite x) (Finite y) = (y < x)"
  by (simp add: js_gt_def)

lemma js_le_antimono: "js_le (Finite a) y \<Longrightarrow> b \<le> a \<Longrightarrow> js_le (Finite b) y"
  by (cases y) (auto simp: js_le_def js_eq_def)

lemma js_le_pos: "js_le (Finite a) y \<Longrightarrow> 0 < a \<Longrightarrow> js_gt y (Finite 0)"
  by (cases y) (auto simp: js_le_def js_eq_def js_gt_def)

lemma length_bump [simp]: "length (bump f i sch) = length sch"
  by (induction sch arbitrary: i) auto

lemma bump_id [simp]: "bump (\<lambda>j r. r) i sch = sch"
  by (induction sch arbitrary: i) auto

lemma bump_bump: "bump f i (bump g i sch) = bump (\<lambda>j r. f j (g j r)) i sch"
  by (induction sch arbitrary: i) auto

lemma bump_cong:
  "(\<And>j r. i \<le> j \<Longrightarrow> j < i + length sch \<Longrightarrow> f j r = g j r) \<Longrightarrow> bump f i sch = bump g i sch"
  by (induction sch arbitrary: i) auto

lemma bump_update:
  "k < length sch \<Longrightarrow>
   sch[k := (sch ! k)\<lparr>rawCirculating := h (rawCirculating (sch ! k))\<rparr>]
     = bump (\<lambda>j r. if j = i + k then h r else r) i sch"
proof (induction sch arbitrary: i k)
  case Nil
  then show ?case by simp
next
  case (Cons p ps)
  show ?case
  proof (cases k)
    case 0
    have "bump (\<lambda>j r. if j = i then h r else r) (Suc i) ps = bump (\<lambda>j r. r) (Suc i) ps"
      by (rule bump_cong) simp
    with 0 show ?thesis by simp
  next
    case (Suc k')
    with Cons.prems have "k' < length ps" by simp
    from Cons.IH [OF this, of "Suc i"] Suc show ?thesis by simp
  qed
qed

lemma add_raw_Inr:
  "i < length sch \<Longrightarrow>
   add_raw i x sch = Inr (bump (\<lambda>j r. if j = i then js_add r x else r) 0 sch)"
  using bump_update [of i sch "\<lambda>r. js_add r x" 0] by (simp add: add_raw_def)

lemma add_raw_Inl: "length sch \<le> i \<Longrightarrow> add_raw i x sch = Inl TypeError"
  by (simp add: add_raw_def)

lemma unlock_loop_Inr:
  "\<not> js_le (Finite (real (length sch))) dur \<Longrightarrow>
   unlock_loop u dur m sch =
     Inr (bump (\<lambda>j r. if m \<le> j \<and> js_le (Finite (real j)) dur then js_add r u else r) 0 sch)"
proof (induction u dur m sch rule: unlock_loop.induct)
  case (1 u dur m sch)
  show ?case
  proof (cases "js_le (Finite (real m)) dur")
    case False
    have "\<not> js_le (Finite (real j)) dur" if "m \<le> j" for j
      using False that js_le_antimono [of "real j" dur "real m"] by auto
    then have "bump (\<lambda>j r. if m \<le> j \<and> js_le (Finite (real j)) dur then js_add r u else r) 0 sch
        = bump (\<lambda>j r. r) 0 sch"
      by (intro bump_cong) auto
    with False show ?thesis
      by (simp add: unlock_loop.simps [of u dur m sch])
  next
    case True
    have m: "m < length sch"
    proof (rule ccontr)
      assume "\<not> m < length sch"
      then have "real (length sch) \<le> real m" by simp
      with True have "js_le (Finite (real (length sch))) dur" by (rule js_le_antimono)
      with "1.prems" show False by simp
    qed
    let ?sch' = "bump (\<lambda>j r. if j = m then js_add r u else r) 0 sch"
    have step: "add_raw m u sch = Inr ?sch'" using m by (rule add_raw_Inr)
    have "unlock_loop u dur (Suc m) ?sch'
            = Inr (bump (\<lambda>j r. if Suc m \<le> j \<and> js_le (Finite (real j)) dur then js_add r u else r)
                     0 ?sch')"
      using "1.IH" [OF True step] "1.prems" by simp
    also have "bump (\<lambda>j r. if Suc m \<le> j \<and> js_le (Finite (real j)) dur then js_add r u else r)
                     0 ?sch'
            = bump (\<lambda>j r. if m \<le> j \<and> js_le (Finite (real j)) dur then js_add r u else r) 0 sch"
      unfolding bump_bump using True by (intro bump_cong) auto
    finally show ?thesis
      using True step by (simp add: unlock_loop.simps [of u dur m sch])
  qed
qed

lemma unlock_loop_Inl:
  "js_le (Finite (real (length sch))) dur \<Longrightarrow> m \<le> length sch \<Longrightarrow>
   unlock_loop u dur m sch = Inl TypeError"
proof (induction u dur m sch rule: unlock_loop.induct)
  case (1 u dur m sch)
  have le: "js_le (Finite (real m)) dur"
    using "1.prems" js_le_antimono [of "real (length sch)" dur "real m"] by simp
  show ?case
  proof (cases "m < length sch")
    case False
    with "1.prems" have "add_raw m u sch = Inl TypeError"
      by (simp add: add_raw_Inl)
    with le show ?thesis
      by (subst unlock_loop.simps) simp
  next
    case True
    let ?sch' = "bump (\<lambda>j r. if j = m then js_add r u else r) 0 sch"
    have step: "add_raw m u sch = Inr ?sch'" using True by (rule add_raw_Inr)
    have "unlock_loop u dur (Suc m) ?sch' = Inl TypeError"
      using "1.IH" [OF le step] "1.prems" True by simp
    then show ?thesis
      using le step by (simp add: unlock_loop.simps [of u dur m sch])
  qed
qed

lemma unlock_category_Inr:
  assumes "sch \<noteq> []" and "\<not> js_le (Finite (real (length sch))) (duration data)"
  shows "unlock_category supply data sch = Inr (bump (credited supply data) 0 sch)"
proof -
  let ?tge = "tgeAmount supply data"
  let ?u = "monthlyUnlock supply data"
  let ?sch' = "bump (\<lambda>j r. if j = 0 then js_add r ?tge else r) 0 sch"
  from assms(1) have first: "add_raw 0 ?tge sch = Inr ?sch'"
    by (intro add_raw_Inr) simp
  show ?thesis
  proof (cases "js_gt (duration data) (Finite 0)")
    case False
    then have "\<not> js_le (Finite (real j)) (duration data)" if "0 < j" for j
      using that js_le_pos [of "real j" "duration data"] by auto
    then have "?sch' = bump (credited supply data) 0 sch"
      by (intro bump_cong) (auto simp: credited_def)
    moreover have "unlock_category supply data sch = Inr ?sch'"
      using first False
      by (simp add: unlock_category_def Let_def tgeAmount_def tokenAmount_def)
    ultimately show ?thesis by simp
  next
    case True
    have "unlock_loop ?u (duration data) 1 ?sch'
            = Inr (bump (\<lambda>j r. if 1 \<le> j \<and> js_le (Finite (real j)) (duration data)
                                 then js_add r ?u else r) 0 ?sch')"
      using assms(2) by (intro unlock_loop_Inr) simp
    then have "unlock_category supply data sch
            = Inr (bump (\<lambda>j r. if 1 \<le> j \<and> js_le (Finite (real j)) (duration data)
                                 then js_add r ?u else r) 0 ?sch')"
      using first True
      by (simp add: unlock_category_def Let_def tgeAmount_def tokenAmount_def monthlyUnlock_def)
    moreover have "bump (\<lambda>j r. if 1 \<le> j \<and> js_le (Finite (real j)) (duration data)
                                 then js_add r ?u else r) 0 ?sch'
            = bump (credited supply data) 0 sch"
      unfolding bump_bump by (intro bump_cong) (auto simp: credited_def)
    ultimately show ?thesis by simp
  qed
qed

lemma unlock_category_Inl:
  assumes "js_le (Finite (real (length sch))) (duration data)" and "sch \<noteq> []"
  shows "unlock_category supply data sch = Inl TypeError"
proof -
  let ?tge = "tgeAmount supply data"
  let ?sch' = "bump (\<lambda>j r. if j = 0 then js_add r ?tge else r) 0 sch"
  from assms(2) have first: "add_raw 0 ?tge sch = Inr ?sch'"
    by (intro add_raw_Inr) simp
  from assms have pos: "js_gt (duration data) (Finite 0)"
    using js_le_pos [of "real (length sch)" "duration data"] by simp
  have "unlock_loop (monthlyUnlock supply data) (duration data) 1 ?sch' = Inl TypeError"
    using assms by (intro unlock_loop_Inl) (cases sch; simp)+
  then show ?thesis
    using first pos
    by (simp add: unlock_category_def Let_def tgeAmount_def tokenAmount_def monthlyUnlock_def)
qed

lemma unlock_all_Inr:
  "sch \<noteq> [] \<Longrightarrow> \<forall>e\<in>set d. \<not> js_le (Finite (real (length sch))) (duration (snd e)) \<Longrightarrow>
   unlock_all supply d sch = Inr (bump (credited_all supply d) 0 sch)"
proof (induction d arbitrary: sch)
  case Nil
  then show ?case by (simp add: credited_all_def)
next
  case (Cons e d)
  obtain category data where e: "e = (category, data)" by (cases e)
  let ?sch' = "bump (credited supply data) 0 sch"
  have step: "unlock_category supply data sch = Inr ?sch'"
    using Cons.prems e by (intro unlock_category_Inr) auto
  have "?sch' \<noteq> []" using Cons.prems(1) by (cases sch) auto
  moreover have "\<forall>e\<in>set d. \<not> js_le (Finite (real (length ?sch'))) (duration (snd e))"
    using Cons.prems(2) by simp
  ultimately have "unlock_all supply d ?sch' = Inr (bump (credited_all supply d) 0 ?sch')"
    by (rule Cons.IH)
  then show ?case
    using step e by (simp add: bump_bump credited_all_def)
qed

lemma unlock_all_Inl:
  "sch \<noteq> [] \<Longrightarrow> \<exists>e\<in>set d. js_le (Finite (real (length sch))) (duration (snd e)) \<Longrightarrow>
   unlock_all supply d sch = Inl TypeError"
proof (induction d arbitrary: sch)
  case Nil
  then show ?case by simp
next
  case (Cons e d)
  obtain category data where e: "e = (category, data)" by (cases e)
  show ?case
  proof (cases "js_le (Finite (real (length sch))) (duration data)")
    case True
    then have "unlock_category supply data sch = Inl TypeError"
      using Cons.prems(1) by (rule unlock_category_Inl)
    with e show ?thesis by simp
  next
    case False
    let ?sch' = "bump (credited supply data) 0 sch"
    have step: "unlock_category supply data sch = Inr ?sch'"
      using Cons.prems(1) False by (intro unlock_category_Inr) auto
    have "?sch' \<noteq> []" using Cons.prems(1) by (cases sch) auto
    moreover have "\<exists>e\<in>set d. js_le (Finite (real (length ?sch'))) (duration (snd e))"
      using Cons.prems(2) False e by auto
    ultimately have "unlock_all supply d ?sch' = Inl TypeError"
      by (rule Cons.IH)
    with step e show ?thesis by simp
  qed
qed

lemma length_empty_schedule [simp]: "length (empty_schedule n) = Suc n"
  by (simp add: empty_schedule_def)

lemma empty_schedule_not_Nil [simp]: "empty_schedule n \<noteq> []"
  by (simp add: empty_schedule_def)

lemma generateUnlockSchedule_Inl:
  "\<exists>e\<in>set (distribution st). js_le (Finite 49) (duration (snd e)) \<Longrightarrow>
   generateUnlockSchedule st = Inl TypeError"
proof -
  assume "\<exists>e\<in>set (distribution st). js_le (Finite 49) (duration (snd e))"
  then have "\<exists>e\<in>set (distribution st).
      js_le (Finite (real (length (empty_schedule 48)))) (duration (snd e))"
    by simp
  then have "unlock_all (totalSupply st) (distribution st) (empty_schedule 48) = Inl TypeError"
    by (intro unlock_all_Inl) simp_all
  then show ?thesis
    by (simp add: generateUnlockSchedule_def Let_def)
qed

lemma generateUnlockSchedule_Inr:
  "\<forall>e\<in>set (distribution st). \<not> js_le (Finite 49) (duration (snd e)) \<Longrightarrow>
   generateUnlockSchedule st =
     Inr (cumulate (totalSupply st) (Finite 0)
            (bump (credited_all (totalSupply st) (distribution st)) 0 (empty_schedule 48)))"
proof -
  assume "\<forall>e\<in>set (distribution st). \<not> js_le (Finite 49) (duration (snd e))"
  then have "\<forall>e\<in>set (distribution st).
      \<not> js_le (Finite (real (length (empty_schedule 48)))) (duration (snd e))"
    by simp
  then have "unlock_all (totalSupply st) (distribution st) (empty_schedule 48)
      = Inr (bump (credited_all (totalSupply st) (distribution st)) 0 (empty_schedule 48))"
    by (intro unlock_all_Inr) simp_all
  then show ?thesis
    by (simp add: generateUnlockSchedule_def Let_def)
qed

lemma generateUnlockSchedule_Inr_iff:
  "(\<exists>s. generateUnlockSchedule st = Inr s)
     \<longleftrightarrow> (\<forall>e\<in>set (distribution st). \<not> js_le (Finite 49) (duration (snd e)))"
proof
  assume "\<exists>s. generateUnlockSchedule st = Inr s"
  then show "\<forall>e\<in>set (distribution st). \<not> js_le (Finite 49) (duration (snd e))"
    using generateUnlockSchedule_Inl [of st] by fastforce
next
  assume "\<forall>e\<in>set (distribution st). \<not> js_le (Finite 49) (duration (snd e))"
  then show "\<exists>s. generateUnlockSchedule st = Inr s"
    using generateUnlockSchedule_Inr [of st] by simp
qed

text \<open>
  Claim C1. A category whose vesting lasts longer than 48 months is claimed to be
  truncated at month 48, with the 49 points still returned and no slot outside 0..48
  touched. The loop runs to \<open>data.duration\<close>, not to \<open>months\<close>: with a duration of 49 it
  reads \<open>schedule[49]\<close>, which is undefined, and the function throws instead of
  returning. The input is the default distribution after the edit of the duration of
  development to 49, which the handler accepts.
\<close>

theorem vesting_beyond_horizon_throws:
  "handleDistributionChange default_distribution ''development'' Duration (Finite 49)
     = Inr long_vesting
   \<and> generateUnlockSchedule (initial_state\<lparr>distribution := long_vesting\<rparr>) = Inl TypeError"
proof
  show "handleDistributionChange default_distribution ''development'' Duration (Finite 49)
          = Inr long_vesting"
    by (simp add: handleDistributionChange_def default_distribution_def long_vesting_def
        js_max_def)
  show "generateUnlockSchedule (initial_state\<lparr>distribution := long_vesting\<rparr>) = Inl TypeError"
    by (rule generateUnlockSchedule_Inl) (simp add: long_vesting_def)
qed

section \<open>Rounded results\<close>

text \<open>The rules that compute \<open>f64\<close> of a given rational number.\<close>

lemmas f64_eval =
  f64_def nearest_def round64_def ulp_def binade_def exponent_def round_even_def bits.simps Let_def

lemma f64_cases:
  "f64 x = Finite (nearest x) \<and> \<bar>nearest x\<bar> < 2 ^ 1024
   \<or> f64 x = PositiveInfinity \<and> 2 ^ 1024 \<le> nearest x
   \<or> f64 x = NegativeInfinity \<and> nearest x \<le> - (2 ^ 1024)"
  by (auto simp: f64_def Let_def)

lemma f64_not_NaN [simp]: "f64 x \<noteq> NaN"
  using f64_cases [of x] by auto

lemma f64_0 [simp]: "f64 0 = Finite 0"
  by (simp add: f64_def)

lemma f64_FiniteD: "f64 x = Finite r \<Longrightarrow> r = nearest x \<and> \<bar>r\<bar> < 2 ^ 1024"
  using f64_cases [of x] by auto

lemma f64_FiniteI: "nearest x = r \<Longrightarrow> \<bar>r\<bar> < 2 ^ 1024 \<Longrightarrow> f64 x = Finite r"
  using f64_cases [of x] by auto

lemma f64_idem: "f64 x = Finite r \<Longrightarrow> f64 r = Finite r"
proof -
  assume "f64 x = Finite r"
  then have r: "r = nearest x" "\<bar>r\<bar> < 2 ^ 1024" by (auto dest: f64_FiniteD)
  have "nearest r = r" unfolding r(1) by (rule nearest_idem)
  then show ?thesis using r(2) by (rule f64_FiniteI)
qed

lemma is_double_f64 [simp]: "is_double (f64 x)"
  by (cases "f64 x") (auto dest: f64_idem)

lemma f64_mono:
  assumes "x \<le> y"
  shows "js_le (f64 x) (f64 y)"
proof -
  note m = nearest_mono [OF assms]
  show ?thesis
    using f64_cases [of x] f64_cases [of y] m
    by (auto simp: js_le_def js_eq_def)
qed

lemma f64_grid:
  fixes n :: int
  assumes "\<bar>n\<bar> \<le> 2 ^ 53" "- 1074 \<le> k" "\<bar>of_int n * 2 powi k\<bar> < (2::real) ^ 1024"
  shows "f64 (of_int n * 2 powi k) = Finite (of_int n * 2 powi k)"
  using nearest_grid [OF assms(1,2)] assms(3) by (rule f64_FiniteI)

lemma f64_of_int: "\<bar>n\<bar> \<le> 2 ^ 53 \<Longrightarrow> f64 (of_int n) = Finite (of_int n)"
proof -
  assume n: "\<bar>n\<bar> \<le> 2 ^ 53"
  then have "\<bar>real_of_int n\<bar> \<le> of_int (2 ^ 53)"
    by (simp only: of_int_abs [symmetric] of_int_le_iff)
  then have "\<bar>real_of_int n\<bar> < 2 ^ 1024" by simp
  with nearest_of_int [OF n] show ?thesis by (rule f64_FiniteI)
qed

lemma f64_between:
  assumes "f64 a = Finite a" "f64 b = Finite b" "a \<le> x" "x \<le> b"
  shows "\<exists>r. f64 x = Finite r \<and> a \<le> r \<and> r \<le> b"
proof -
  from assms(1,2) have a: "nearest a = a" "\<bar>a\<bar> < 2 ^ 1024"
    and b: "nearest b = b" "\<bar>b\<bar> < 2 ^ 1024"
    by (auto dest: f64_FiniteD)
  have "a \<le> nearest x" "nearest x \<le> b"
    using nearest_mono [OF assms(3)] nearest_mono [OF assms(4)] a(1) b(1) by simp_all
  moreover from this have "\<bar>nearest x\<bar> < 2 ^ 1024" using a(2) b(2) by linarith
  ultimately show ?thesis
    by (intro exI [of _ "nearest x"]) (simp add: f64_FiniteI)
qed

lemma nearest_normal:
  assumes "2 powi e \<le> x" "x < 2 powi (e + 1)" "- 1022 \<le> e"
  shows "nearest x = of_int (round_even (x / 2 powi (e - 52))) * 2 powi (e - 52)"
proof -
  have "(0::real) < 2 powi e" by simp
  with assms(1) have x: "0 < x" by linarith
  have "exponent x = e" using x assms(1,2) by (rule exponent_unique)
  then have "ulp x = 2 powi (e - 52)" using assms(3) by (simp add: ulp_def binade_def)
  then show ?thesis using x by (simp add: nearest_def round64_def)
qed

section \<open>The schedule and the metrics\<close>

lemma is_double_js_add [simp]: "is_double (js_add x y)"
  by (cases x; cases y) simp_all

lemma is_double_js_mul [simp]: "is_double (js_mul x y)"
  by (cases x; cases y) (simp_all add: signed_infinity_def)

lemma is_double_js_div [simp]: "is_double (js_div x y)"
  by (cases x; cases y) (simp_all add: signed_infinity_def)

lemma js_add_0_left: "is_double x \<Longrightarrow> js_add (Finite 0) x = x"
  by (cases x) simp_all

lemma js_add_0_right: "is_double x \<Longrightarrow> js_add x (Finite 0) = x"
  by (cases x) simp_all

lemma is_double_foldl_js_add:
  "is_double a \<Longrightarrow> is_double (foldl (\<lambda>sum e. js_add sum (g e)) a xs)"
  by (induction xs arbitrary: a) simp_all

lemma is_double_0 [simp]: "is_double (Finite 0)"
  by simp

lemma tge_total_foldl:
  "tge_total supply d = foldl (\<lambda>sum e. js_add sum (tgeAmount supply (snd e))) (Finite 0) d"
  by (simp add: tge_total_def case_prod_unfold)

lemma is_double_tge_total [simp]: "is_double (tge_total supply d)"
  unfolding tge_total_foldl by (rule is_double_foldl_js_add) simp

lemma empty_schedule_Cons:
  "empty_schedule 48 =
     \<lparr>month = 0, circulating = Finite 0, rawCirculating = Finite 0\<rparr>
     # map (\<lambda>m. \<lparr>month = m, circulating = Finite 0, rawCirculating = Finite 0\<rparr>) [1..<49]"
  by (simp add: empty_schedule_def upt_conv_Cons)

lemma credited_all_0: "credited_all supply d 0 (Finite 0) = tge_total supply d"
  by (simp add: credited_all_def tge_total_def credited_def)

lemma generateUnlockSchedule_first:
  assumes "\<forall>e\<in>set (distribution st). \<not> js_le (Finite 49) (duration (snd e))"
    and "c = js_min (tge_total (totalSupply st) (distribution st)) (totalSupply st)"
  shows "\<exists>rest. generateUnlockSchedule st =
     Inr (\<lparr>month = 0, circulating = c,
           percentCirculating = js_mul (js_div c (totalSupply st)) (Finite 100)\<rparr> # rest)"
  unfolding generateUnlockSchedule_Inr [OF assms(1)] empty_schedule_Cons assms(2)
  by (simp add: Let_def credited_all_0 js_add_0_left)

lemma month0_circulating:
  assumes "generateUnlockSchedule st = Inr s"
  shows "\<exists>first rest. s = first # rest \<and> month first = 0
           \<and> circulating first
               = js_min (tge_total (totalSupply st) (distribution st)) (totalSupply st)"
proof -
  have "\<forall>e\<in>set (distribution st). \<not> js_le (Finite 49) (duration (snd e))"
    using assms generateUnlockSchedule_Inr_iff [of st] by blast
  from generateUnlockSchedule_first [OF this refl] assms show ?thesis
    by auto
qed

lemma calculateMetrics_Inr:
  assumes "\<forall>e\<in>set (distribution st). \<not> js_le (Finite 49) (duration (snd e))"
    and "map_of (distribution st) ''teamAndAdvisors'' = Some team"
    and "map_of (distribution st) ''liquidityPool'' = Some pool"
    and "c = js_min (tge_total (totalSupply st) (distribution st)) (totalSupply st)"
  shows "calculateMetrics st =
     Inr \<lparr>tgeCirculating = c,
          tgeCirculatingPercent = js_mul (js_div c (totalSupply st)) (Finite 100),
          initialMarketCap = js_mul c (initialTokenPrice st),
          fdvToMcapRatio =
            (if js_gt c (Finite 0) then js_div (fdv st) (js_mul c (initialTokenPrice st))
             else PositiveInfinity),
          warnings = strings_of (filter truthy
            [js_and (js_gt (js_mul (js_div c (totalSupply st)) (Finite 100)) (Finite 25))
               ''High TGE unlock may cause price instability'',
             js_and (js_gt c (Finite 0)
                 \<and> js_gt (js_div (fdv st) (js_mul c (initialTokenPrice st))) (Finite 100))
               ''High FDV/MCap ratio indicates significant future dilution'',
             js_and (js_gt (percentage team) (Finite 20))
               ''Team allocation appears high'',
             js_and (js_lt (percentage pool) (Finite 5))
               ''Low liquidity allocation may cause price volatility''])\<rparr>"
proof -
  from generateUnlockSchedule_first [OF assms(1,4)] obtain rest where
    "generateUnlockSchedule st =
       Inr (\<lparr>month = 0, circulating = c,
             percentCirculating = js_mul (js_div c (totalSupply st)) (Finite 100)\<rparr> # rest)"
    by blast
  then show ?thesis
    using assms(2,3) by (simp add: calculateMetrics_def Let_def)
qed

lemma default_durations:
  "\<forall>e\<in>set default_distribution. \<not> js_le (Finite 49) (duration (snd e))"
  by (simp add: default_distribution_def)

lemma default_tge_total:
  "tge_total (Finite 1000000000) default_distribution = Finite 45000000"
  by (simp add: tge_total_def tgeAmount_def tokenAmount_def default_distribution_def f64_eval)

lemma initial_price:
  "f64 (1 / 1000) = Finite (1152921504606847 / 1152921504606846976)"
  by (simp add: f64_eval)

lemma initial_fdv: "fdv (sync_fdv initial_state) = Finite 1000000"
  by (simp add: sync_fdv_def initial_state_def initial_price js_max_def)
     (simp add: f64_eval)

lemma default_metrics:
  "calculateMetrics (sync_fdv initial_state) =
       Inr \<lparr>tgeCirculating = Finite 45000000, tgeCirculatingPercent = Finite (45 / 10),
            initialMarketCap = Finite 45000,
            fdvToMcapRatio = Finite (3127499741229511 / 140737488355328), warnings = []\<rparr>"
proof -
  let ?st = "sync_fdv initial_state"
  have d: "\<forall>e\<in>set (distribution ?st). \<not> js_le (Finite 49) (duration (snd e))"
    using default_durations by (simp add: sync_fdv_def initial_state_def)
  have t: "Finite 45000000
             = js_min (tge_total (totalSupply ?st) (distribution ?st)) (totalSupply ?st)"
    by (simp add: sync_fdv_def initial_state_def default_tge_total js_min_def)
  have team: "map_of (distribution ?st) ''teamAndAdvisors''
                = Some \<lparr>percentage = Finite 15, tge = Finite 0, duration = Finite 36\<rparr>"
    by (simp add: sync_fdv_def initial_state_def default_distribution_def)
  have pool: "map_of (distribution ?st) ''liquidityPool''
                = Some \<lparr>percentage = Finite 5, tge = Finite 20, duration = Finite 24\<rparr>"
    by (simp add: sync_fdv_def initial_state_def default_distribution_def)
  have fdv: "fdv ?st = Finite 1000000" by (rule initial_fdv)
  have total: "totalSupply ?st = Finite 1000000000"
    and price: "initialTokenPrice ?st = Finite (1152921504606847 / 1152921504606846976)"
    by (simp_all add: sync_fdv_def initial_state_def initial_price)
  have percent: "js_mul (js_div (Finite 45000000) (Finite 1000000000)) (Finite 100)
                   = Finite (45 / 10)"
    by (simp add: f64_eval)
  have cap: "js_mul (Finite 45000000) (Finite (1152921504606847 / 1152921504606846976))
               = Finite 45000"
    by (simp add: f64_eval)
  have ratio: "js_div (Finite 1000000) (Finite 45000)
                 = Finite (3127499741229511 / 140737488355328)"
    by (simp add: f64_eval)
  show ?thesis
    unfolding calculateMetrics_Inr [OF d team pool t] fdv total price percent cap ratio
    by (simp add: js_and_def js_gt_def)
qed

text \<open>
  Claim C4. With a total supply of 1,000,000,000, a price of 0.001 and the default
  distribution, once the effect has set \<open>fdv\<close>: the point of month 0 holds 45,000,000
  circulating tokens, \<open>tgeCirculatingPercent\<close> is 4.5, \<open>initialMarketCap\<close> is 45,000, the
  fully diluted value is 1,000,000 and \<open>fdvToMcapRatio\<close> is the double nearest to
  1,000,000 / 45,000, which is 22.2 to one decimal place.
\<close>

theorem default_scenario_metrics:
  "(\<exists>rest. generateUnlockSchedule (sync_fdv initial_state) =
       Inr (\<lparr>month = 0, circulating = Finite 45000000,
             percentCirculating = Finite (45 / 10)\<rparr> # rest))
   \<and> fdv (sync_fdv initial_state) = Finite 1000000
   \<and> calculateMetrics (sync_fdv initial_state) =
       Inr \<lparr>tgeCirculating = Finite 45000000, tgeCirculatingPercent = Finite (45 / 10),
            initialMarketCap = Finite 45000,
            fdvToMcapRatio = Finite (3127499741229511 / 140737488355328), warnings = []\<rparr>
   \<and> \<bar>3127499741229511 / 140737488355328 - 222 / 10\<bar> < (5 / 100 :: real)"
proof (intro conjI)
  let ?st = "sync_fdv initial_state"
  have d: "\<forall>e\<in>set (distribution ?st). \<not> js_le (Finite 49) (duration (snd e))"
    using default_durations by (simp add: sync_fdv_def initial_state_def)
  have t: "Finite 45000000
             = js_min (tge_total (totalSupply ?st) (distribution ?st)) (totalSupply ?st)"
    by (simp add: sync_fdv_def initial_state_def default_tge_total js_min_def)
  have total: "totalSupply ?st = Finite 1000000000"
    by (simp add: sync_fdv_def initial_state_def)
  have percent: "js_mul (js_div (Finite 45000000) (Finite 1000000000)) (Finite 100)
                   = Finite (45 / 10)"
    by (simp add: f64_eval)
  show "\<exists>rest. generateUnlockSchedule ?st =
       Inr (\<lparr>month = 0, circulating = Finite 45000000,
             percentCirculating = Finite (45 / 10)\<rparr> # rest)"
    using generateUnlockSchedule_first [OF d t] unfolding total percent .
  show "fdv ?st = Finite 1000000"
    by (rule initial_fdv)
  show "calculateMetrics ?st =
       Inr \<lparr>tgeCirculating = Finite 45000000, tgeCirculatingPercent = Finite (45 / 10),
            initialMarketCap = Finite 45000,
            fdvToMcapRatio = Finite (3127499741229511 / 140737488355328), warnings = []\<rparr>"
    by (rule default_metrics)
  show "\<bar>3127499741229511 / 140737488355328 - 222 / 10\<bar> < (5 / 100 :: real)"
    by simp
qed

lemma initial_generates: "\<exists>s. generateUnlockSchedule (sync_fdv initial_state) = Inr s"
  using generateUnlockSchedule_Inr_iff [of "sync_fdv initial_state"] default_durations
  by (simp add: sync_fdv_def initial_state_def)

text \<open>
  Claim C5. The circulating value of month 0 in the schedule that
  \<open>generateUnlockSchedule\<close> returns is the sum over the categories of
  \<open>floor(floor(totalSupply * percentage / 100) * tge / 100)\<close>, capped at the total supply,
  in the arithmetic of the program: every product and quotient is rounded to a double
  before its floor is taken, and the terms are added in the order of the categories,
  each partial sum rounded. This holds for every returned schedule, whatever the ranges
  of the inputs.
\<close>

theorem month0_circulating_is_capped_tge_sum:
  assumes "generateUnlockSchedule st = Inr s"
  shows "\<exists>first rest. s = first # rest \<and> month first = 0 \<and>
           circulating first =
             js_min
               (foldl (\<lambda>sum (category, data).
                    js_add sum
                      (js_floor (js_div
                         (js_mul (js_floor (js_div (js_mul (totalSupply st) (percentage data))
                                    (Finite 100)))
                            (tge data))
                         (Finite 100))))
                  (Finite 0) (distribution st))
               (totalSupply st)"
  using month0_circulating [OF assms]
  by (simp add: tge_total_def tgeAmount_def tokenAmount_def)

theorem month0_circulating_is_capped_tge_sum_witness:
  "\<exists>s first rest. generateUnlockSchedule (sync_fdv initial_state) = Inr s
       \<and> s = first # rest \<and> month first = 0 \<and> circulating first = Finite 45000000"
proof -
  let ?st = "sync_fdv initial_state"
  from initial_generates obtain s where s: "generateUnlockSchedule ?st = Inr s" ..
  have "js_min (tge_total (totalSupply ?st) (distribution ?st)) (totalSupply ?st)
          = Finite 45000000"
    by (simp add: sync_fdv_def initial_state_def default_tge_total js_min_def)
  then have "js_min
               (foldl (\<lambda>sum (category, data).
                    js_add sum
                      (js_floor (js_div
                         (js_mul (js_floor (js_div (js_mul (totalSupply ?st) (percentage data))
                                    (Finite 100)))
                            (tge data))
                         (Finite 100))))
                  (Finite 0) (distribution ?st))
               (totalSupply ?st) = Finite 45000000"
    by (simp add: tge_total_def tgeAmount_def tokenAmount_def)
  with month0_circulating_is_capped_tge_sum [OF s] s show ?thesis
    by auto
qed

section \<open>Edits of a percentage\<close>

lemma total_percentage_foldl:
  "total_percentage d = foldl (\<lambda>sum e. js_add sum (percentage (snd e))) (Finite 0) d"
  by (simp add: total_percentage_def case_prod_unfold)

lemma other_entries_Nil [simp]: "other_entries k [] = []"
  by (simp add: other_entries_def)

lemma other_entries_Cons [simp]:
  "other_entries k ((c, x) # d) = (if c = k then other_entries k d else (c, x) # other_entries k d)"
  by (simp add: other_entries_def)

lemma other_entries_absent: "k \<notin> fst ` set d \<Longrightarrow> other_entries k d = d"
  by (induction d) (auto simp: other_entries_def)

lemma keys_other_entries: "fst ` set (other_entries k d) = fst ` set d - {k}"
  by (auto simp: other_entries_def image_iff)

lemma obj_set_map:
  "distinct (map fst d) \<Longrightarrow> map_of d k = Some cur \<Longrightarrow>
   obj_set k (g cur) d = map (\<lambda>(c, x). if c = k then (c, g x) else (c, x)) d"
proof (induction d)
  case Nil
  then show ?case by simp
next
  case (Cons e d)
  obtain c x where e: "e = (c, x)" by (cases e)
  show ?case
  proof (cases "c = k")
    case True
    with Cons.prems e have absent: "k \<notin> fst ` set d" and "x = cur" by auto
    have "map (\<lambda>(c, x). if c = k then (c, g x) else (c, x)) d = d"
      using absent by (intro map_idI) (auto simp: image_iff)
    with e True \<open>x = cur\<close> show ?thesis by simp
  next
    case False
    with Cons e show ?thesis by simp
  qed
qed

lemma map_of_keys: "k \<in> set (map fst d) \<Longrightarrow> \<exists>cur. map_of d k = Some cur"
  by (induction d) auto

lemma category_keys_distinct: "distinct category_keys"
  by (simp add: category_keys_def)

lemma category_keys_nonempty: "[] \<notin> set category_keys"
  by (simp add: category_keys_def)

lemma js_max_0: "js_le (Finite 0) v \<Longrightarrow> js_max (Finite 0) v = v"
  by (cases v) (auto simp: js_max_def js_le_def js_eq_def)

text \<open>
  Claim C6. For a distribution on the seven categories, an edit of the percentage of one
  of them to a value \<open>v \<ge> 0\<close> that keeps the total of the others plus \<open>v\<close> at 100 or below
  returns the distribution with the percentage of the target set to \<open>v\<close> rounded to one
  decimal place, and with every other field of every entry as it was. The total of the
  others and its sum with \<open>v\<close> are the ones the handler computes: the percentages added
  in the order of the categories, each partial sum rounded to a double.
\<close>

theorem percentage_edit_within_limit:
  assumes "map fst d = category_keys"
    and "category \<in> set category_keys"
    and "js_le (Finite 0) v"
    and "js_le (js_add (total_percentage (other_entries category d)) v) (Finite 100)"
  shows "handleDistributionChange d category Percentage v =
           Inr (map (\<lambda>(c, x). if c = category then (c, x\<lparr>percentage := round1 v\<rparr>) else (c, x)) d)"
proof -
  have dist: "distinct (map fst d)"
    using assms(1) category_keys_distinct by simp
  from assms(1,2) obtain cur where cur: "map_of d category = Some cur"
    using map_of_keys [of category d] by auto
  have "handleDistributionChange d category Percentage v
          = Inr (obj_set category (cur\<lparr>percentage := round1 v\<rparr>) d)"
    using assms(4) cur
    by (simp add: handleDistributionChange_def Let_def js_max_0 [OF assms(3)])
  also have "obj_set category (cur\<lparr>percentage := round1 v\<rparr>) d
          = map (\<lambda>(c, x). if c = category then (c, x\<lparr>percentage := round1 v\<rparr>) else (c, x)) d"
    using dist cur by (rule obj_set_map)
  finally show ?thesis .
qed

theorem percentage_edit_within_limit_witness:
  "map fst default_distribution = category_keys
   \<and> ''liquidityPool'' \<in> set category_keys
   \<and> js_le (Finite 0) (Finite 4)
   \<and> js_le (js_add (total_percentage (other_entries ''liquidityPool'' default_distribution))
         (Finite 4)) (Finite 100)
   \<and> handleDistributionChange default_distribution ''liquidityPool'' Percentage (Finite 4) =
       Inr [(''publicSale'', \<lparr>percentage = Finite 20, tge = Finite 10, duration = Finite 12\<rparr>),
            (''privateRounds'', \<lparr>percentage = Finite 15, tge = Finite 5, duration = Finite 24\<rparr>),
            (''teamAndAdvisors'', \<lparr>percentage = Finite 15, tge = Finite 0, duration = Finite 36\<rparr>),
            (''development'', \<lparr>percentage = Finite 20, tge = Finite 0, duration = Finite 48\<rparr>),
            (''ecosystem'', \<lparr>percentage = Finite 15, tge = Finite 5, duration = Finite 36\<rparr>),
            (''treasury'', \<lparr>percentage = Finite 10, tge = Finite 0, duration = Finite 48\<rparr>),
            (''liquidityPool'', \<lparr>percentage = Finite 4, tge = Finite 20, duration = Finite 24\<rparr>)]"
proof -
  have keys: "map fst default_distribution = category_keys"
    by (simp add: default_distribution_def category_keys_def)
  have target: "''liquidityPool'' \<in> set category_keys"
    by (simp add: category_keys_def)
  have others: "total_percentage (other_entries ''liquidityPool'' default_distribution) = Finite 95"
    by (simp add: total_percentage_def default_distribution_def f64_eval)
  have within: "js_le (js_add (total_percentage (other_entries ''liquidityPool'' default_distribution))
         (Finite 4)) (Finite 100)"
    unfolding others by (simp add: f64_eval)
  have rounded: "round1 (Finite 4) = Finite 4"
    by (simp add: round1_def f64_eval)
  from percentage_edit_within_limit [OF keys target _ within] keys target within
  show ?thesis
    by (simp add: default_distribution_def rounded)
qed

section \<open>Rebalancing\<close>

lemma keys_rescale [simp]: "map fst (rescale k n s d) = map fst d"
  by (induction d) (auto simp: rescale_def)

lemma rescale_Nil [simp]: "rescale k n s [] = []"
  by (simp add: rescale_def)

lemma rescale_Cons [simp]:
  "rescale k n s ((c, x) # d) =
     (if c = k then (c, x\<lparr>percentage := round1 n\<rparr>)
      else (c, x\<lparr>percentage := scaledPercentage (percentage x) s\<rparr>)) # rescale k n s d"
  by (simp add: rescale_def)

lemma map_of_rescale:
  "map_of (rescale k n s d) c =
     map_option (\<lambda>x. x\<lparr>percentage :=
         (if c = k then round1 n else scaledPercentage (percentage x) s)\<rparr>)
       (map_of d c)"
  by (induction d) auto

lemma other_entries_rescale:
  "other_entries k (rescale k n s d) =
     map (\<lambda>(c, x). (c, x\<lparr>percentage := scaledPercentage (percentage x) s\<rparr>)) (other_entries k d)"
  by (induction d) auto

lemma js_add_FiniteD: "js_add x y = Finite r \<Longrightarrow> (\<exists>a. x = Finite a) \<and> (\<exists>b. y = Finite b)"
  by (cases x; cases y) simp_all

lemma foldl_js_add_FiniteD:
  "foldl (\<lambda>sum e. js_add sum (g e)) a xs = Finite r \<Longrightarrow>
   (\<exists>b. a = Finite b) \<and> (\<forall>e\<in>set xs. \<exists>b. g e = Finite b)"
proof (induction xs arbitrary: a)
  case Nil
  then show ?case by simp
next
  case (Cons e xs)
  from Cons.prems have "foldl (\<lambda>sum e. js_add sum (g e)) (js_add a (g e)) xs = Finite r"
    by simp
  from Cons.IH [OF this] obtain b where
    "js_add a (g e) = Finite b" "\<forall>e\<in>set xs. \<exists>b. g e = Finite b" by blast
  then show ?case using js_add_FiniteD [of a "g e" b] by auto
qed

lemma total_percentage_FiniteD:
  "total_percentage d = Finite r \<Longrightarrow> \<forall>e\<in>set d. \<exists>b. percentage (snd e) = Finite b"
  unfolding total_percentage_foldl by (drule foldl_js_add_FiniteD) blast

lemma f64_100 [simp]: "f64 100 = Finite 100"
  using f64_of_int [of 100] by simp

lemma f64_200 [simp]: "f64 200 = Finite 200"
  using f64_of_int [of 200] by simp

lemma f64_1000 [simp]: "f64 1000 = Finite 1000"
  using f64_of_int [of 1000] by simp

lemma round1_100 [simp]: "round1 (Finite 100) = Finite 100"
  by (simp add: round1_def)

lemma scaledPercentage_0 [simp]: "scaledPercentage (Finite p) (Finite 0) = Finite 0"
  by (simp add: scaledPercentage_def)

lemma rescale_to_zero:
  "\<forall>e\<in>set (other_entries k d). \<exists>b. percentage (snd e) = Finite b \<Longrightarrow>
   rescale k (Finite 100) (Finite 0) d =
     map (\<lambda>(c, x). if c = k then (c, x\<lparr>percentage := Finite 100\<rparr>)
                     else (c, x\<lparr>percentage := Finite 0\<rparr>)) d"
  by (induction d) (auto split: if_splits)

lemma total_zeroed_absent:
  "k \<notin> fst ` set d \<Longrightarrow> a = Finite 0 \<or> a = Finite 100 \<Longrightarrow>
   foldl (\<lambda>sum e. js_add sum (percentage (snd e))) a
     (map (\<lambda>(c, x). if c = k then (c, x\<lparr>percentage := Finite 100\<rparr>)
                     else (c, x\<lparr>percentage := Finite 0\<rparr>)) d) = a"
  by (induction d arbitrary: a) auto

lemma total_zeroed:
  "distinct (map fst d) \<Longrightarrow> k \<in> fst ` set d \<Longrightarrow>
   total_percentage
     (map (\<lambda>(c, x). if c = k then (c, x\<lparr>percentage := Finite 100\<rparr>)
                     else (c, x\<lparr>percentage := Finite 0\<rparr>)) d) = Finite 100"
  unfolding total_percentage_foldl
proof (induction d)
  case Nil
  then show ?case by simp
next
  case (Cons e d)
  obtain c x where e: "e = (c, x)" by (cases e)
  show ?case
  proof (cases "c = k")
    case True
    with Cons.prems e have "k \<notin> fst ` set d" by auto
    from total_zeroed_absent [OF this, of "Finite 100"] e True show ?thesis by simp
  next
    case False
    with Cons e show ?thesis by auto
  qed
qed

text \<open>
  Claim C9. When the percentages of the categories other than the target sum to exactly
  100, setting the percentage of the target to 100 takes the rebalancing branch with
  \<open>scale = (100 - 100) / 100 = 0\<close>: the target holds 100 and every other category 0. The
  new total is 100, so the residual correction is skipped, and the only division by the
  non-target total is the one of \<open>scale\<close>, by 100. The sum of the others is the one the
  handler computes, \<open>otherTotal\<close>.
\<close>

theorem full_allocation_zeroes_others:
  assumes "map fst d = category_keys"
    and "category \<in> set category_keys"
    and "total_percentage (other_entries category d) = Finite 100"
  shows "handleDistributionChange d category Percentage (Finite 100) =
           Inr (map (\<lambda>(c, x). if c = category then (c, x\<lparr>percentage := Finite 100\<rparr>)
                               else (c, x\<lparr>percentage := Finite 0\<rparr>)) d)"
proof -
  let ?nd = "map (\<lambda>(c, x). if c = category then (c, x\<lparr>percentage := Finite 100\<rparr>)
                               else (c, x\<lparr>percentage := Finite 0\<rparr>)) d"
  have dist: "distinct (map fst d)"
    using assms(1) category_keys_distinct by simp
  from assms(1,2) obtain cur where cur: "map_of d category = Some cur"
    using map_of_keys [of category d] by auto
  have mem: "category \<in> fst ` set d"
    using assms(1,2) by (metis list.set_map)
  have finite: "\<forall>e\<in>set (other_entries category d). \<exists>b. percentage (snd e) = Finite b"
    using assms(3) by (rule total_percentage_FiniteD)
  have nd: "rescale category (Finite 100) (Finite 0) d = ?nd"
    using finite by (rule rescale_to_zero)
  have total: "total_percentage ?nd = Finite 100"
    using dist mem by (rule total_zeroed)
  show ?thesis
    using cur assms(3) nd total
    by (simp add: handleDistributionChange_def Let_def js_max_def js_sub_def js_eq_def)
qed

theorem full_allocation_zeroes_others_witness:
  "map fst others_at_100 = category_keys
   \<and> ''publicSale'' \<in> set category_keys
   \<and> total_percentage (other_entries ''publicSale'' others_at_100) = Finite 100
   \<and> handleDistributionChange others_at_100 ''publicSale'' Percentage (Finite 100) =
       Inr [(''publicSale'', \<lparr>percentage = Finite 100, tge = Finite 10, duration = Finite 12\<rparr>),
            (''privateRounds'', \<lparr>percentage = Finite 0, tge = Finite 5, duration = Finite 24\<rparr>),
            (''teamAndAdvisors'', \<lparr>percentage = Finite 0, tge = Finite 0, duration = Finite 36\<rparr>),
            (''development'', \<lparr>percentage = Finite 0, tge = Finite 0, duration = Finite 48\<rparr>),
            (''ecosystem'', \<lparr>percentage = Finite 0, tge = Finite 5, duration = Finite 36\<rparr>),
            (''treasury'', \<lparr>percentage = Finite 0, tge = Finite 0, duration = Finite 48\<rparr>),
            (''liquidityPool'', \<lparr>percentage = Finite 0, tge = Finite 20, duration = Finite 24\<rparr>)]"
proof -
  have keys: "map fst others_at_100 = category_keys"
    by (simp add: others_at_100_def category_keys_def)
  have target: "''publicSale'' \<in> set category_keys"
    by (simp add: category_keys_def)
  have others: "total_percentage (other_entries ''publicSale'' others_at_100) = Finite 100"
    by (simp add: total_percentage_def others_at_100_def f64_eval)
  from full_allocation_zeroes_others [OF keys target others] keys target others
  show ?thesis
    by (simp add: others_at_100_def)
qed

text \<open>
  Claim C2. After a rebalancing edit the percentages are claimed to sum to exactly 100,
  and the source says so in its comments. With the default distribution and the
  percentage of publicSale set to 20.8, a value in \<open>[0, 100]\<close>, the others sum to 80,
  the edit would give 100.8, and the rebalancing branch is taken: the others are scaled
  by 0.99 and rounded to 14.9, 14.9, 19.8, 14.9, 9.9 and 5, the total is
  100.20000000000002, and the residual \<open>- 0.2\<close> is added to development. The result
  sums to 100.00000000000001, the double next above 100.
\<close>

theorem rebalanced_total_is_not_100:
  "js_le (Finite 0) (f64 (208 / 10)) \<and> js_le (f64 (208 / 10)) (Finite 100)
   \<and> total_percentage (other_entries ''publicSale'' default_distribution) = Finite 80
   \<and> js_gt (js_add (Finite 80) (f64 (208 / 10))) (Finite 100)
   \<and> handleDistributionChange default_distribution ''publicSale'' Percentage (f64 (208 / 10))
       = Inr rebalanced_208
   \<and> total_percentage rebalanced_208 = Finite (7036874417766401 / 70368744177664)
   \<and> \<not> js_eq (total_percentage rebalanced_208) (Finite 100)"
proof -
  have v: "f64 (208 / 10) = Finite (5854679515581645 / 281474976710656)"
    by (simp add: f64_eval)
  have others: "total_percentage (other_entries ''publicSale'' default_distribution) = Finite 80"
    by (simp add: total_percentage_def default_distribution_def f64_eval)
  have above: "js_gt (js_add (Finite 80) (f64 (208 / 10))) (Finite 100)"
    unfolding v by (simp add: f64_eval)
  have edit: "handleDistributionChange default_distribution ''publicSale'' Percentage
                (f64 (208 / 10)) = Inr rebalanced_208"
    unfolding v
    by (simp add: handleDistributionChange_def default_distribution_def Let_def other_entries_def
        total_percentage_def rescale_def scaledPercentage_def largest_entry_def round1_def
        js_max_def js_sub_def js_eq_def rebalanced_208_def f64_eval)
  have total: "total_percentage rebalanced_208 = Finite (7036874417766401 / 70368744177664)"
    by (simp add: total_percentage_def rebalanced_208_def f64_eval)
  show ?thesis
    unfolding total using v others above edit by (simp add: js_eq_def)
qed

lemma js_lt_trans: "js_lt a b \<Longrightarrow> js_lt b c \<Longrightarrow> js_lt a c"
  by (cases a; cases b; cases c) simp_all

lemma largest_entry_mem: "largest_entry first rest \<in> set (first # rest)"
  unfolding largest_entry_def
  by (induction rest arbitrary: first) (auto split: if_splits)

lemma js_lt_irrefl [simp]: "\<not> js_lt a a"
  by (cases a) simp_all

lemma js_lt_asym: "js_lt a b \<Longrightarrow> \<not> js_lt b a"
  by (cases a; cases b) simp_all

lemma largest_entry_Cons:
  "largest_entry first (e # rest) =
     largest_entry (if js_gt (percentage (snd e)) (percentage (snd first)) then e else first) rest"
  by (simp add: largest_entry_def)

lemma largest_entry_seed:
  "largest_entry first rest = first
   \<or> js_gt (percentage (snd (largest_entry first rest))) (percentage (snd first))"
proof (induction rest arbitrary: first)
  case Nil
  show ?case by (simp add: largest_entry_def)
next
  case (Cons e rest)
  show ?case
  proof (cases "js_gt (percentage (snd e)) (percentage (snd first))")
    case False
    then show ?thesis using Cons [of first] by (simp add: largest_entry_Cons)
  next
    case True
    from Cons [of e] show ?thesis
    proof
      assume "largest_entry e rest = e"
      with True show ?thesis by (simp add: largest_entry_Cons)
    next
      assume "js_gt (percentage (snd (largest_entry e rest))) (percentage (snd e))"
      with True have "js_gt (percentage (snd (largest_entry e rest))) (percentage (snd first))"
        unfolding js_gt_def by (rule js_lt_trans)
      with True show ?thesis by (simp add: largest_entry_Cons)
    qed
  qed
qed

lemma largest_entry_first:
  "\<not> js_gt (percentage (snd first)) (percentage (snd (largest_entry first rest)))"
  using largest_entry_seed [of first rest] js_lt_asym [of "percentage (snd first)"]
  by (auto simp: js_gt_def)

lemma largest_entry_max:
  "e \<in> set (first # rest) \<Longrightarrow>
   \<not> js_gt (percentage (snd e)) (percentage (snd (largest_entry first rest)))"
proof (induction rest arbitrary: first)
  case Nil
  then show ?case by (simp add: largest_entry_def js_gt_def)
next
  case (Cons e' rest)
  let ?first' = "if js_gt (percentage (snd e')) (percentage (snd first)) then e' else first"
  let ?l = "largest_entry ?first' rest"
  have unfold: "largest_entry first (e' # rest) = ?l"
    by (rule largest_entry_Cons)
  have below: "\<not> js_gt (percentage (snd x)) (percentage (snd ?l))"
    if "\<not> js_gt (percentage (snd x)) (percentage (snd ?first'))" for x
  proof
    assume gt: "js_gt (percentage (snd x)) (percentage (snd ?l))"
    from largest_entry_seed [of ?first' rest] show False
    proof
      assume "?l = ?first'"
      with gt that show False by simp
    next
      assume "js_gt (percentage (snd ?l)) (percentage (snd ?first'))"
      then have "js_lt (percentage (snd ?first')) (percentage (snd x))"
        using gt unfolding js_gt_def by (rule js_lt_trans)
      with that show False by (simp add: js_gt_def)
    qed
  qed
  from Cons.prems consider "e = first" | "e = e'" | "e \<in> set rest" by auto
  then show ?case
  proof cases
    case 1
    have "\<not> js_gt (percentage (snd first)) (percentage (snd ?first'))"
      using js_lt_asym [of "percentage (snd first)" "percentage (snd e')"]
      by (simp add: js_gt_def)
    from below [OF this] 1 unfold show ?thesis by simp
  next
    case 2
    have "\<not> js_gt (percentage (snd e')) (percentage (snd ?first'))"
      by (simp add: js_gt_def)
    from below [OF this] 2 unfold show ?thesis by simp
  next
    case 3
    then have "e \<in> set (?first' # rest)" by simp
    from Cons.IH [OF this] unfold show ?thesis by simp
  qed
qed

lemma keys_obj_modify [simp]: "map fst (obj_modify k f d) = map fst d"
  by (induction d) auto

lemma map_of_obj_modify:
  "map_of (obj_modify k f d) c = (if c = k then map_option f (map_of d k) else map_of d c)"
  by (induction d) auto

lemma total_percentage_Nil [simp]: "total_percentage [] = Finite 0"
  by (simp add: total_percentage_def)

lemma rebalance_result:
  assumes dist: "distinct (map fst d)"
    and named: "[] \<notin> set (map fst d)"
    and cur: "map_of d category = Some cur"
    and others: "other_entries category d \<noteq> []"
    and exceed: "\<not> js_le (js_add (total_percentage (other_entries category d))
                     (js_max (Finite 0) v)) (Finite 100)"
    and nd: "nd = rescale category (js_max (Finite 0) v)
                    (js_div (js_sub (Finite 100) (js_max (Finite 0) v))
                       (total_percentage (other_entries category d))) d"
  shows "\<exists>k. k \<in> fst ` set (other_entries category d)
            \<and> (\<forall>e\<in>set (other_entries category nd).
                  \<not> js_gt (percentage (snd e)) (percentage (the (map_of nd k))))
            \<and> handleDistributionChange d category Percentage v =
                Inr (if js_eq (total_percentage nd) (Finite 100) then nd
                     else obj_modify k
                      (\<lambda>x. x\<lparr>percentage := js_add (percentage x)
                               (round1 (js_sub (Finite 100) (total_percentage nd)))\<rparr>) nd)"
proof -
  let ?T = "total_percentage nd"
  have nd_others: "other_entries category nd
      = map (\<lambda>(c, x). (c, x\<lparr>percentage := scaledPercentage (percentage x)
                (js_div (js_sub (Finite 100) (js_max (Finite 0) v))
                       (total_percentage (other_entries category d)))\<rparr>))
          (other_entries category d)"
    unfolding nd by (rule other_entries_rescale)
  with others obtain first rest where fr: "other_entries category nd = first # rest"
    by (cases "other_entries category nd") auto
  let ?l = "largest_entry first rest"
  have mem: "?l \<in> set (other_entries category nd)"
    unfolding fr by (rule largest_entry_mem)
  then have key_nd: "fst ?l \<in> fst ` set (other_entries category nd)"
    by (rule imageI)
  have "fst ` set nd = fst ` set d"
    using keys_rescale [of category "js_max (Finite 0) v" _ d] unfolding nd
    by (metis list.set_map)
  with key_nd have key_d: "fst ?l \<in> fst ` set (other_entries category d)"
    by (simp add: keys_other_entries)
  then have key: "fst ?l \<in> fst ` set d" and "fst ?l \<noteq> category"
    by (auto simp: keys_other_entries)
  with named have nonempty: "fst ?l \<noteq> []"
    by (metis list.set_map)
  have dist_nd: "distinct (map fst nd)"
    unfolding nd using dist by simp
  have "?l \<in> set nd"
    using mem by (simp add: other_entries_def)
  then have lookup: "map_of nd (fst ?l) = Some (snd ?l)"
    using dist_nd by (simp add: map_of_eq_Some_iff)
  have max: "\<forall>e\<in>set (other_entries category nd).
               \<not> js_gt (percentage (snd e)) (percentage (the (map_of nd (fst ?l))))"
    unfolding lookup fr using largest_entry_max by simp
  have "handleDistributionChange d category Percentage v =
          Inr (if js_eq ?T (Finite 100) then nd
               else obj_modify (fst ?l)
                      (\<lambda>x. x\<lparr>percentage := js_add (percentage x)
                               (round1 (js_sub (Finite 100) ?T))\<rparr>) nd)"
    using cur exceed nd [symmetric] fr nonempty
    by (simp add: handleDistributionChange_def Let_def)
  with key_d max show ?thesis by blast
qed

lemma js_gt_100_cases: "js_gt v (Finite 100) \<Longrightarrow> (\<exists>x. v = Finite x \<and> 100 < x) \<or> v = PositiveInfinity"
  by (cases v) (simp_all add: js_gt_def)

lemma js_gt_0_cases: "js_gt v (Finite 0) \<Longrightarrow> (\<exists>x. v = Finite x \<and> 0 < x) \<or> v = PositiveInfinity"
  by (cases v) (simp_all add: js_gt_def)

lemma js_le_0_cases: "js_le (Finite 0) v \<Longrightarrow> (\<exists>x. v = Finite x \<and> 0 \<le> x) \<or> v = PositiveInfinity"
  by (cases v) (auto simp: js_le_def js_eq_def)

lemma js_le_PositiveInfinity [simp]: "js_le (Finite x) PositiveInfinity"
  by (simp add: js_le_def)

lemma not_positive_cases:
  "\<not> js_gt v (Finite 0) \<longleftrightarrow> (\<exists>x. v = Finite x \<and> x \<le> 0) \<or> v = NegativeInfinity \<or> v = NaN"
  by (cases v) (auto simp: js_gt_def)

lemma f64_ge: "f64 a = Finite a \<Longrightarrow> a \<le> x \<Longrightarrow> (\<exists>y. f64 x = Finite y \<and> a \<le> y) \<or> f64 x = PositiveInfinity"
  using f64_mono [of a x] by (cases "f64 x") (auto simp: js_le_def js_eq_def)

lemma f64_le: "f64 b = Finite b \<Longrightarrow> x \<le> b \<Longrightarrow> (\<exists>y. f64 x = Finite y \<and> y \<le> b) \<or> f64 x = NegativeInfinity"
  using f64_mono [of x b] by (cases "f64 x") (auto simp: js_le_def js_eq_def)

lemma f64_nonpos: "x \<le> 0 \<Longrightarrow> \<not> js_gt (f64 x) (Finite 0)"
  using f64_le [of 0 x] by (auto simp: js_gt_def)

lemma round1_above_100:
  assumes "js_gt v (Finite 100)"
  shows "js_le (Finite 100) (round1 v)"
proof -
  from js_gt_100_cases [OF assms] show ?thesis
  proof
    assume "\<exists>x. v = Finite x \<and> 100 < x"
    then obtain x where x: "v = Finite x" "100 < x" by blast
    then have "1000 \<le> x * 10" by simp
    from f64_ge [OF f64_1000 this] show ?thesis
    proof
      assume "\<exists>y. f64 (x * 10) = Finite y \<and> 1000 \<le> y"
      then obtain y where y: "f64 (x * 10) = Finite y" "1000 \<le> y" by blast
      have "(1000::int) \<le> \<lfloor>y + 1 / 2\<rfloor>" using y(2) by linarith
      then have "(1000::real) \<le> of_int \<lfloor>y + 1 / 2\<rfloor>" by linarith
      then have "100 \<le> real_of_int \<lfloor>y + 1 / 2\<rfloor> / 10" by simp
      from f64_ge [OF f64_100 this] show ?thesis
        using x y by (auto simp: round1_def)
    next
      assume "f64 (x * 10) = PositiveInfinity"
      then show ?thesis using x by (simp add: round1_def signed_infinity_def js_le_def)
    qed
  next
    assume "v = PositiveInfinity"
    then show ?thesis by (simp add: round1_def signed_infinity_def js_le_def)
  qed
qed

lemma not_positive_mul_10: "\<not> js_gt j (Finite 0) \<Longrightarrow> \<not> js_gt (js_mul j (Finite 10)) (Finite 0)"
  unfolding not_positive_cases [of j]
  using f64_nonpos by (auto simp: signed_infinity_def js_gt_def)

lemma not_positive_round: "\<not> js_gt j (Finite 0) \<Longrightarrow> \<not> js_gt (js_round j) (Finite 0)"
  unfolding not_positive_cases [of j]
  by (auto simp: js_gt_def)

lemma not_positive_div_10: "\<not> js_gt j (Finite 0) \<Longrightarrow> \<not> js_gt (js_div j (Finite 10)) (Finite 0)"
  unfolding not_positive_cases [of j]
  using f64_nonpos by (auto simp: signed_infinity_def js_gt_def)

lemma not_positive_mul:
  assumes "js_le (Finite 0) p" "\<not> js_gt s (Finite 0)"
  shows "\<not> js_gt (js_mul p s) (Finite 0)"
proof -
  from js_le_0_cases [OF assms(1)] assms(2) [unfolded not_positive_cases]
  show ?thesis
    using f64_nonpos
    by (auto simp: signed_infinity_def js_gt_def mult_nonneg_nonpos split: if_splits)
qed

lemma scaledPercentage_not_positive:
  "js_le (Finite 0) p \<Longrightarrow> \<not> js_gt s (Finite 0) \<Longrightarrow> \<not> js_gt (scaledPercentage p s) (Finite 0)"
  unfolding scaledPercentage_def
  by (intro not_positive_div_10 not_positive_round not_positive_mul_10 not_positive_mul)

lemma scale_not_positive:
  assumes "js_gt v (Finite 100)" "js_gt t (Finite 0)"
  shows "\<not> js_gt (js_div (js_sub (Finite 100) v) t) (Finite 0)"
proof -
  have "\<not> js_gt (js_sub (Finite 100) v) (Finite 0)"
    using js_gt_100_cases [OF assms(1)] f64_nonpos by (auto simp: js_sub_def js_gt_def)
  then show ?thesis
    unfolding not_positive_cases [of "js_sub (Finite 100) v"]
    using js_gt_0_cases [OF assms(2)] f64_nonpos
    by (auto simp: signed_infinity_def js_gt_def divide_nonpos_pos)
qed

lemma double_above_100:
  assumes "f64 x = Finite x" "100 < x"
  shows "of_int 7036874417766401 * 2 powi (- 46) \<le> x"
proof (cases "x < 128")
  case False
  have "of_int 7036874417766401 * 2 powi (- 46) \<le> (128::real)" by simp
  with False show ?thesis by linarith
next
  case True
  have pos: "0 < x" using assms(2) by simp
  have "exponent x = 6"
    using pos assms(2) True by (intro exponent_unique) simp_all
  then have u: "ulp x = 2 powi (- 46)" by (simp add: ulp_def binade_def)
  from assms(1) have "nearest x = x" by (auto dest: f64_FiniteD)
  then have x: "x = of_int (round_even (x / ulp x)) * 2 powi (- 46)"
    using pos by (simp add: nearest_def round64_def u)
  define n where "n = round_even (x / ulp x)"
  have "100 < real_of_int n * 2 powi (- 46)"
    using assms(2) x by (simp add: n_def)
  then have "real_of_int 7036874417766400 < real_of_int n" by simp
  then have "7036874417766400 < n" by (simp only: of_int_less_iff)
  then have "7036874417766401 \<le> n" by simp
  then have "real_of_int 7036874417766401 \<le> real_of_int n" by (simp only: of_int_le_iff)
  then have "of_int 7036874417766401 * 2 powi (- 46) \<le> real_of_int n * 2 powi (- 46)"
    by (intro mult_right_mono) simp_all
  with x show ?thesis by (simp add: n_def)
qed

lemma exceeds_100:
  assumes "js_gt v (Finite 100)" "is_double v" "js_gt t (Finite 0)"
  shows "\<not> js_le (js_add t v) (Finite 100)"
proof -
  let ?h = "of_int 7036874417766401 * 2 powi (- 46) :: real"
  have grid: "f64 ?h = Finite ?h"
    by (rule f64_grid) simp_all
  have h: "100 < ?h" by simp
  from js_gt_100_cases [OF assms(1)] show ?thesis
  proof
    assume "\<exists>x. v = Finite x \<and> 100 < x"
    then obtain x where x: "v = Finite x" "100 < x" by blast
    with assms(2) have "f64 x = Finite x" by simp
    then have hx: "?h \<le> x" using x(2) by (rule double_above_100)
    from js_gt_0_cases [OF assms(3)] show ?thesis
    proof
      assume "\<exists>y. t = Finite y \<and> 0 < y"
      then obtain y where y: "t = Finite y" "0 < y" by blast
      have "?h \<le> y + x" using hx y(2) by linarith
      from f64_ge [OF grid this] h show ?thesis
        using x y by (auto simp: js_le_def js_eq_def)
    next
      assume "t = PositiveInfinity"
      then show ?thesis using x by (simp add: js_le_def js_eq_def)
    qed
  next
    assume "v = PositiveInfinity"
    then show ?thesis
      using js_gt_0_cases [OF assms(3)] by (auto simp: js_le_def js_eq_def)
  qed
qed

text \<open>
  Claim C10, amended. The value of a percentage edit is clamped from below only. For a
  double \<open>v > 100\<close> and a positive non-target total the rebalancing branch is taken: the
  target holds \<open>v\<close> rounded to one decimal place, which is at least 100; \<open>scale\<close> is not
  positive, and every other category is first set to \<open>Math.round(old * scale * 10) / 10\<close>,
  computed in doubles, which is not positive when the old percentage was not negative.
  Then, unless the total \<open>T\<close> after scaling is 100, the residual
  \<open>Math.round((100 - T) * 10) / 10\<close> is added to one other category \<open>k\<close>, one that no
  other category exceeds in its scaled percentage. As stated, with every other category
  at its scaled value, the claim fails: see the counterexample below.
\<close>

theorem percentage_edit_above_100:
  assumes keys: "map fst d = category_keys"
    and cat: "category \<in> set category_keys"
    and v: "js_gt v (Finite 100)"
    and double: "is_double v"
    and other: "js_gt (total_percentage (other_entries category d)) (Finite 0)"
    and scale: "scale = js_div (js_sub (Finite 100) v) (total_percentage (other_entries category d))"
    and total: "T = total_percentage (rescale category v scale d)"
  shows "\<exists>d' k. handleDistributionChange d category Percentage v = Inr d'
           \<and> map fst d' = category_keys
           \<and> k \<in> set category_keys \<and> k \<noteq> category
           \<and> (\<forall>c x. map_of d c = Some x \<longrightarrow>
                 map_of d' c = Some (x\<lparr>percentage :=
                   (if c = category then round1 v
                    else if c = k \<and> \<not> js_eq T (Finite 100)
                    then js_add (scaledPercentage (percentage x) scale)
                           (round1 (js_sub (Finite 100) T))
                    else scaledPercentage (percentage x) scale)\<rparr>))
           \<and> (\<forall>c x y. c \<noteq> category \<and> map_of d c = Some x \<and> map_of d k = Some y \<longrightarrow>
                 \<not> js_gt (scaledPercentage (percentage x) scale)
                      (scaledPercentage (percentage y) scale))
           \<and> js_le (Finite 100) (round1 v)
           \<and> \<not> js_gt scale (Finite 0)
           \<and> (\<forall>c x. c \<noteq> category \<and> map_of d c = Some x \<and> js_le (Finite 0) (percentage x) \<longrightarrow>
                 \<not> js_gt (scaledPercentage (percentage x) scale) (Finite 0))"
proof -
  let ?others = "other_entries category d"
  have v0: "js_max (Finite 0) v = v"
    using js_gt_100_cases [OF v] by (auto simp: js_max_def)
  define nd where "nd = rescale category (js_max (Finite 0) v)
                    (js_div (js_sub (Finite 100) (js_max (Finite 0) v))
                       (total_percentage ?others)) d"
  have nd: "nd = rescale category v scale d"
    unfolding nd_def v0 scale ..
  have T: "total_percentage nd = T"
    unfolding nd total ..
  have dist: "distinct (map fst d)"
    using keys category_keys_distinct by simp
  have named: "[] \<notin> set (map fst d)"
    using keys category_keys_nonempty by simp
  from keys cat obtain cur where cur: "map_of d category = Some cur"
    using map_of_keys [of category d] by auto
  have nonempty: "?others \<noteq> []"
    using other by (auto simp: js_gt_def)
  have exceed: "\<not> js_le (js_add (total_percentage ?others) (js_max (Finite 0) v)) (Finite 100)"
    unfolding v0 using v double other by (rule exceeds_100)
  from rebalance_result [OF dist named cur nonempty exceed nd_def] obtain k where
    k: "k \<in> fst ` set ?others"
    and largest: "\<forall>e\<in>set (other_entries category nd).
                    \<not> js_gt (percentage (snd e)) (percentage (the (map_of nd k)))"
    and result: "handleDistributionChange d category Percentage v =
                Inr (if js_eq (total_percentage nd) (Finite 100) then nd
                     else obj_modify k
                      (\<lambda>x. x\<lparr>percentage := js_add (percentage x)
                               (round1 (js_sub (Finite 100) (total_percentage nd)))\<rparr>) nd)"
    by blast
  let ?d' = "if js_eq T (Finite 100) then nd
             else obj_modify k
                    (\<lambda>x. x\<lparr>percentage := js_add (percentage x)
                             (round1 (js_sub (Finite 100) T))\<rparr>) nd"
  have edit: "handleDistributionChange d category Percentage v = Inr ?d'"
    using result unfolding T .
  have k_key: "k \<in> set category_keys" and k_other: "k \<noteq> category"
    using k keys by (auto simp: keys_other_entries) (metis list.set_map image_eqI fst_conv)
  have lookup: "map_of ?d' c = Some (x\<lparr>percentage :=
                   (if c = category then round1 v
                    else if c = k \<and> \<not> js_eq T (Finite 100)
                    then js_add (scaledPercentage (percentage x) scale)
                           (round1 (js_sub (Finite 100) T))
                    else scaledPercentage (percentage x) scale)\<rparr>)"
    if "map_of d c = Some x" for c x
    using that k_other by (auto simp: map_of_obj_modify nd map_of_rescale)
  have neg: "\<not> js_gt scale (Finite 0)"
    unfolding scale using v other by (rule scale_not_positive)
  have sign: "\<not> js_gt (scaledPercentage (percentage x) scale) (Finite 0)"
    if "js_le (Finite 0) (percentage x)" for x
    using that neg by (rule scaledPercentage_not_positive)
  have top: "\<not> js_gt (scaledPercentage (percentage x) scale)
                 (scaledPercentage (percentage y) scale)"
    if "c \<noteq> category" and "map_of d c = Some x" and "map_of d k = Some y" for c x y
  proof -
    have "(c, x) \<in> set ?others"
      using that(1,2) by (auto simp: other_entries_def dest: map_of_SomeD)
    then have "(c, x\<lparr>percentage := scaledPercentage (percentage x) scale\<rparr>)
                 \<in> set (other_entries category nd)"
      unfolding nd other_entries_rescale by force
    with largest have "\<not> js_gt (scaledPercentage (percentage x) scale)
                            (percentage (the (map_of nd k)))"
      by force
    moreover have "map_of nd k = Some (y\<lparr>percentage := scaledPercentage (percentage y) scale\<rparr>)"
      using that(3) k_other by (simp add: nd map_of_rescale)
    ultimately show ?thesis by simp
  qed
  have "map fst ?d' = category_keys"
    using keys by (simp add: nd)
  with edit k_key k_other lookup top round1_above_100 [OF v] neg sign show ?thesis
    by blast
qed

theorem percentage_edit_above_100_witness:
  "map fst default_distribution = category_keys
   \<and> ''publicSale'' \<in> set category_keys
   \<and> js_gt (Finite 120) (Finite 100)
   \<and> is_double (Finite 120)
   \<and> js_gt (total_percentage (other_entries ''publicSale'' default_distribution)) (Finite 0)
   \<and> (\<exists>d' k. handleDistributionChange default_distribution ''publicSale'' Percentage (Finite 120)
                 = Inr d'
           \<and> map fst d' = category_keys
           \<and> k \<in> set category_keys \<and> k \<noteq> ''publicSale''
           \<and> (\<forall>c x. map_of default_distribution c = Some x \<longrightarrow>
                 map_of d' c = Some (x\<lparr>percentage :=
                   (if c = ''publicSale'' then round1 (Finite 120)
                    else if c = k \<and> \<not> js_eq (Finite (1762737041650483 / 17592186044416)) (Finite 100)
                    then js_add (scaledPercentage (percentage x) (Finite (- (1 / 4))))
                           (round1 (js_sub (Finite 100)
                              (Finite (1762737041650483 / 17592186044416))))
                    else scaledPercentage (percentage x) (Finite (- (1 / 4))))\<rparr>))
           \<and> (\<forall>c x y. c \<noteq> ''publicSale'' \<and> map_of default_distribution c = Some x
                    \<and> map_of default_distribution k = Some y \<longrightarrow>
                 \<not> js_gt (scaledPercentage (percentage x) (Finite (- (1 / 4))))
                      (scaledPercentage (percentage y) (Finite (- (1 / 4)))))
           \<and> js_le (Finite 100) (round1 (Finite 120))
           \<and> \<not> js_gt (Finite (- (1 / 4))) (Finite 0)
           \<and> (\<forall>c x. c \<noteq> ''publicSale'' \<and> map_of default_distribution c = Some x
                    \<and> js_le (Finite 0) (percentage x) \<longrightarrow>
                 \<not> js_gt (scaledPercentage (percentage x) (Finite (- (1 / 4)))) (Finite 0)))"
proof -
  have h1: "map fst default_distribution = category_keys"
    by (simp add: default_distribution_def category_keys_def)
  have h2: "''publicSale'' \<in> set category_keys"
    by (simp add: category_keys_def)
  have h3: "js_gt (Finite 120) (Finite 100)" by simp
  have h4: "is_double (Finite 120)"
    using f64_of_int [of 120] by simp
  have sum: "total_percentage (other_entries ''publicSale'' default_distribution) = Finite 80"
    by (simp add: total_percentage_def default_distribution_def f64_eval)
  have h5: "js_gt (total_percentage (other_entries ''publicSale'' default_distribution)) (Finite 0)"
    by (simp add: sum)
  have h6: "Finite (- (1 / 4)) = js_div (js_sub (Finite 100) (Finite 120))
              (total_percentage (other_entries ''publicSale'' default_distribution))"
    unfolding sum by (simp add: js_sub_def f64_eval)
  have h7: "Finite (1762737041650483 / 17592186044416)
              = total_percentage (rescale ''publicSale'' (Finite 120) (Finite (- (1 / 4)))
                  default_distribution)"
    by (simp add: total_percentage_def rescale_def scaledPercentage_def round1_def
        default_distribution_def f64_eval)
  from percentage_edit_above_100 [OF h1 h2 h3 h4 h5 h6 h7] h1 h2 h3 h4 h5
  show ?thesis by blast
qed

text \<open>
  The default distribution with the percentage of publicSale set to 120: the scale is
  \<open>- 1 / 4\<close>, the scaled percentages sum with 120 to 100.19999999999999, and the residual
  \<open>- 0.2\<close> goes to liquidityPool, which no other category exceeds. It holds \<open>- 1.4\<close>, not
  its scaled value \<open>- 1.2\<close>.
\<close>

theorem percentage_edit_above_100_counterexample:
  "handleDistributionChange default_distribution ''publicSale'' Percentage (Finite 120)
     = Inr rebalanced_120
   \<and> map_option percentage (map_of rebalanced_120 ''liquidityPool'')
       = Some (Finite (- (3152519739159347 / 2251799813685248)))
   \<and> scaledPercentage (Finite 5)
         (js_div (js_sub (Finite 100) (Finite 120))
            (total_percentage (other_entries ''publicSale'' default_distribution)))
       = Finite (- (5404319552844595 / 4503599627370496))"
proof (intro conjI)
  show "handleDistributionChange default_distribution ''publicSale'' Percentage (Finite 120)
          = Inr rebalanced_120"
    by (simp add: handleDistributionChange_def default_distribution_def Let_def other_entries_def
        total_percentage_def rescale_def scaledPercentage_def largest_entry_def round1_def
        js_max_def js_sub_def js_eq_def rebalanced_120_def f64_eval)
  show "map_option percentage (map_of rebalanced_120 ''liquidityPool'')
          = Some (Finite (- (3152519739159347 / 2251799813685248)))"
    by (simp add: rebalanced_120_def)
  show "scaledPercentage (Finite 5)
         (js_div (js_sub (Finite 100) (Finite 120))
            (total_percentage (other_entries ''publicSale'' default_distribution)))
       = Finite (- (5404319552844595 / 4503599627370496))"
    by (simp add: total_percentage_def default_distribution_def scaledPercentage_def
        js_sub_def f64_eval)
qed

section \<open>Warnings\<close>

lemma warnings_of_metrics:
  assumes "calculateMetrics st = Inr m"
    and "map_of (distribution st) ''teamAndAdvisors'' = Some team"
    and "map_of (distribution st) ''liquidityPool'' = Some pool"
  shows "warnings m =
             (if js_gt (tgeCirculatingPercent m) (Finite 25)
              then [''High TGE unlock may cause price instability''] else [])
             @ (if js_gt (tgeCirculating m) (Finite 0) \<and> js_gt (fdvToMcapRatio m) (Finite 100)
                then [''High FDV/MCap ratio indicates significant future dilution''] else [])
             @ (if js_gt (percentage team) (Finite 20) then [''Team allocation appears high''] else [])
             @ (if js_lt (percentage pool) (Finite 5)
                then [''Low liquidity allocation may cause price volatility''] else [])"
  using assms unfolding calculateMetrics_def
  by (auto simp: Let_def js_and_def split: sum.splits list.splits)

lemma f64_int_facts:
  "f64 5 = Finite 5" "f64 50 = Finite 50" "f64 32 = Finite 32"
  "f64 5000000000 = Finite 5000000000" "f64 50000000 = Finite 50000000"
  "f64 1000000000 = Finite 1000000000" "f64 10000000 = Finite 10000000"
  "f64 35000000 = Finite 35000000" "f64 45000000 = Finite 45000000"
  "f64 32768 = Finite 32768" "f64 65536 = Finite 65536"
  using f64_of_int [of 5] f64_of_int [of 50] f64_of_int [of 32] f64_of_int [of 5000000000]
    f64_of_int [of 50000000] f64_of_int [of 1000000000] f64_of_int [of 10000000]
    f64_of_int [of 35000000] f64_of_int [of 45000000] f64_of_int [of 32768]
    f64_of_int [of 65536]
  by simp_all

lemma f64_fraction_facts:
  "f64 (1 / 16) = Finite (1 / 16)" "f64 (25 / 4) = Finite (25 / 4)"
  by (simp_all add: f64_eval)

lemma round1_below_5:
  assumes "js_le (Finite 0) v" "js_lt (round1 v) (Finite 5)"
  shows "\<exists>x q. v = Finite x \<and> 0 \<le> x \<and> x \<le> 5 \<and> round1 v = Finite q \<and> 0 \<le> q \<and> q < 5"
proof -
  from js_le_0_cases [OF assms(1)] assms(2) obtain x where x: "v = Finite x" "0 \<le> x"
    by (auto simp: round1_def signed_infinity_def)
  have "0 \<le> x * 10" using x(2) by simp
  from f64_ge [OF f64_0 this] assms(2) x obtain y where y: "f64 (x * 10) = Finite y" "0 \<le> y"
    by (auto simp: round1_def signed_infinity_def)
  let ?n = "real_of_int \<lfloor>y + 1 / 2\<rfloor>"
  have n: "0 \<le> ?n" using y(2) by simp
  then have "0 \<le> ?n / 10" by simp
  from f64_ge [OF f64_0 this] assms(2) x y obtain q where q: "f64 (?n / 10) = Finite q" "0 \<le> q"
    by (auto simp: round1_def)
  have r: "round1 v = Finite q" using x y q by (simp add: round1_def)
  with assms(2) have q5: "q < 5" by simp
  have "x \<le> 5"
  proof (rule ccontr)
    assume "\<not> x \<le> 5"
    then have "50 \<le> x * 10" by simp
    from f64_ge [OF f64_int_facts(2) this] y have "50 \<le> y" by simp
    then have "(50::int) \<le> \<lfloor>y + 1 / 2\<rfloor>" by linarith
    then have "(50::real) \<le> ?n" by linarith
    then have "5 \<le> ?n / 10" by simp
    from f64_ge [OF f64_int_facts(1) this] q have "5 \<le> q" by simp
    with q5 show False by simp
  qed
  with x r q(2) q5 show ?thesis by blast
qed

lemma low_liquidity_edit:
  assumes "js_le (Finite 0) v" and "js_lt (round1 v) (Finite 5)"
  shows "handleDistributionChange default_distribution ''liquidityPool'' Percentage v =
     Inr [(''publicSale'', \<lparr>percentage = Finite 20, tge = Finite 10, duration = Finite 12\<rparr>),
          (''privateRounds'', \<lparr>percentage = Finite 15, tge = Finite 5, duration = Finite 24\<rparr>),
          (''teamAndAdvisors'', \<lparr>percentage = Finite 15, tge = Finite 0, duration = Finite 36\<rparr>),
          (''development'', \<lparr>percentage = Finite 20, tge = Finite 0, duration = Finite 48\<rparr>),
          (''ecosystem'', \<lparr>percentage = Finite 15, tge = Finite 5, duration = Finite 36\<rparr>),
          (''treasury'', \<lparr>percentage = Finite 10, tge = Finite 0, duration = Finite 48\<rparr>),
          (''liquidityPool'', \<lparr>percentage = round1 v, tge = Finite 20, duration = Finite 24\<rparr>)]"
proof -
  from round1_below_5 [OF assms] obtain x where x: "v = Finite x" "0 \<le> x" "x \<le> 5"
    by blast
  have others: "total_percentage (other_entries ''liquidityPool'' default_distribution) = Finite 95"
    by (simp add: total_percentage_def default_distribution_def f64_eval)
  have "0 \<le> 95 + x" "95 + x \<le> 100" using x by simp_all
  from f64_between [OF f64_0 f64_100 this] have "js_le (js_add (Finite 95) v) (Finite 100)"
    using x by auto
  then show ?thesis
    using others js_max_0 [OF assms(1)]
    by (simp add: handleDistributionChange_def Let_def)
       (simp add: default_distribution_def)
qed

lemma synced_fdv: "fdv (sync_fdv (initial_state\<lparr>distribution := d\<rparr>)) = Finite 1000000"
  by (simp add: sync_fdv_def initial_state_def initial_price js_max_def)
     (simp add: f64_eval)

lemma low_liquidity_warning:
  assumes "0 \<le> p" and "p < 5"
    and "d = [(''publicSale'', \<lparr>percentage = Finite 20, tge = Finite 10, duration = Finite 12\<rparr>),
          (''privateRounds'', \<lparr>percentage = Finite 15, tge = Finite 5, duration = Finite 24\<rparr>),
          (''teamAndAdvisors'', \<lparr>percentage = Finite 15, tge = Finite 0, duration = Finite 36\<rparr>),
          (''development'', \<lparr>percentage = Finite 20, tge = Finite 0, duration = Finite 48\<rparr>),
          (''ecosystem'', \<lparr>percentage = Finite 15, tge = Finite 5, duration = Finite 36\<rparr>),
          (''treasury'', \<lparr>percentage = Finite 10, tge = Finite 0, duration = Finite 48\<rparr>),
          (''liquidityPool'', \<lparr>percentage = Finite p, tge = Finite 20, duration = Finite 24\<rparr>)]"
  shows "\<exists>m. calculateMetrics (sync_fdv (initial_state\<lparr>distribution := d\<rparr>)) = Inr m
           \<and> warnings m = [''Low liquidity allocation may cause price volatility'']"
proof -
  let ?st = "sync_fdv (initial_state\<lparr>distribution := d\<rparr>)"
  let ?pool = "\<lparr>percentage = Finite p, tge = Finite 20, duration = Finite 24\<rparr>"
  let ?price = "1152921504606847 / 1152921504606846976 :: real"
  have "0 \<le> 1000000000 * p" "1000000000 * p \<le> 5000000000" using assms(1,2) by simp_all
  from f64_between [OF f64_0 f64_int_facts(4) this] obtain a where
    a: "f64 (1000000000 * p) = Finite a" "0 \<le> a" "a \<le> 5000000000" by blast
  have "0 \<le> a / 100" "a / 100 \<le> 50000000" using a(2,3) by simp_all
  from f64_between [OF f64_0 f64_int_facts(5) this] obtain b where
    b: "f64 (a / 100) = Finite b" "0 \<le> b" "b \<le> 50000000" by blast
  define tok where "tok = real_of_int \<lfloor>b\<rfloor>"
  have tok: "0 \<le> tok" "tok \<le> 50000000"
    using b(2,3) unfolding tok_def by (simp, linarith)
  have token: "tokenAmount (Finite 1000000000) ?pool = Finite tok"
    by (simp add: tokenAmount_def a(1) b(1) tok_def)
  have "0 \<le> tok * 20" "tok * 20 \<le> 1000000000" using tok by simp_all
  from f64_between [OF f64_0 f64_int_facts(6) this] obtain c' where
    c': "f64 (tok * 20) = Finite c'" "0 \<le> c'" "c' \<le> 1000000000" by blast
  have "0 \<le> c' / 100" "c' / 100 \<le> 10000000" using c'(2,3) by simp_all
  from f64_between [OF f64_0 f64_int_facts(7) this] obtain e where
    e: "f64 (c' / 100) = Finite e" "0 \<le> e" "e \<le> 10000000" by blast
  define t where "t = real_of_int \<lfloor>e\<rfloor>"
  have t: "0 \<le> t" "t \<le> 10000000"
    using e(2,3) unfolding t_def by (simp, linarith)
  have tge: "tgeAmount (Finite 1000000000) ?pool = Finite t"
    by (simp add: tgeAmount_def token c'(1) e(1) t_def)
  have "35000000 \<le> 35000000 + t" "35000000 + t \<le> 45000000" using t by simp_all
  from f64_between [OF f64_int_facts(8,9) this] obtain c where
    c: "f64 (35000000 + t) = Finite c" "35000000 \<le> c" "c \<le> 45000000" by blast
  have six: "foldl (\<lambda>sum (category, data). js_add sum (tgeAmount (Finite 1000000000) data))
               (Finite 0)
               [(''publicSale'', \<lparr>percentage = Finite 20, tge = Finite 10, duration = Finite 12\<rparr>),
                (''privateRounds'', \<lparr>percentage = Finite 15, tge = Finite 5, duration = Finite 24\<rparr>),
                (''teamAndAdvisors'', \<lparr>percentage = Finite 15, tge = Finite 0, duration = Finite 36\<rparr>),
                (''development'', \<lparr>percentage = Finite 20, tge = Finite 0, duration = Finite 48\<rparr>),
                (''ecosystem'', \<lparr>percentage = Finite 15, tge = Finite 5, duration = Finite 36\<rparr>),
                (''treasury'', \<lparr>percentage = Finite 10, tge = Finite 0, duration = Finite 48\<rparr>)]
             = Finite 35000000"
    by (simp add: tgeAmount_def tokenAmount_def f64_eval)
  have total: "tge_total (Finite 1000000000) d = Finite c"
  proof -
    have "tge_total (Finite 1000000000) d
            = js_add (Finite 35000000) (tgeAmount (Finite 1000000000) ?pool)"
      unfolding tge_total_def assms(3) using six by simp
    then show ?thesis by (simp add: tge c(1))
  qed
  have circ: "Finite c = js_min (tge_total (totalSupply ?st) (distribution ?st)) (totalSupply ?st)"
    using c(3) by (simp add: sync_fdv_def initial_state_def total js_min_def)
  have durations: "\<forall>e\<in>set (distribution ?st). \<not> js_le (Finite 49) (duration (snd e))"
    by (simp add: sync_fdv_def initial_state_def assms(3))
  have team: "map_of (distribution ?st) ''teamAndAdvisors''
                = Some \<lparr>percentage = Finite 15, tge = Finite 0, duration = Finite 36\<rparr>"
    by (simp add: sync_fdv_def initial_state_def assms(3))
  have pool: "map_of (distribution ?st) ''liquidityPool'' = Some ?pool"
    by (simp add: sync_fdv_def initial_state_def assms(3))
  have total_supply: "totalSupply ?st = Finite 1000000000"
    and price: "initialTokenPrice ?st = Finite ?price"
    by (simp_all add: sync_fdv_def initial_state_def initial_price)
  have "0 \<le> c / 1000000000" "c / 1000000000 \<le> 1 / 16" using c(2,3) by simp_all
  from f64_between [OF f64_0 f64_fraction_facts(1) this] obtain f where
    f: "f64 (c / 1000000000) = Finite f" "0 \<le> f" "f \<le> 1 / 16" by blast
  have "0 \<le> f * 100" "f * 100 \<le> 25 / 4" using f(2,3) by simp_all
  from f64_between [OF f64_0 f64_fraction_facts(2) this] obtain u where
    u: "f64 (f * 100) = Finite u" "0 \<le> u" "u \<le> 25 / 4" by blast
  have percent: "js_mul (js_div (Finite c) (Finite 1000000000)) (Finite 100) = Finite u"
    by (simp add: f(1) u(1))
  have "32768 \<le> c * ?price" "c * ?price \<le> 65536" using c(2,3) by simp_all
  from f64_between [OF f64_int_facts(10,11) this] obtain mc where
    mc: "f64 (c * ?price) = Finite mc" "32768 \<le> mc" "mc \<le> 65536" by blast
  have cap: "js_mul (Finite c) (Finite ?price) = Finite mc"
    by (simp only: js_mul.simps mc(1))
  have "1000000 / mc \<le> 1000000 / 32768"
    using mc(2) by (intro divide_left_mono) simp_all
  then have "0 \<le> 1000000 / mc" "1000000 / mc \<le> 32" using mc(2) by simp_all
  from f64_between [OF f64_0 f64_int_facts(3) this] obtain r where
    r: "f64 (1000000 / mc) = Finite r" "0 \<le> r" "r \<le> 32" by blast
  have ratio: "js_div (Finite 1000000) (Finite mc) = Finite r"
    using mc(2) by (simp add: r(1))
  note m = calculateMetrics_Inr [OF durations team pool circ]
  have "warnings (projr (calculateMetrics ?st))
          = [''Low liquidity allocation may cause price volatility'']"
    unfolding m synced_fdv total_supply price percent cap ratio
    using c(2) u(3) r(3) assms(2) by (simp add: js_and_def)
  with m show ?thesis by simp
qed

text \<open>
  Claim C7. The warnings that \<open>calculateMetrics\<close> returns are exactly the messages of the
  four rules that hold of the returned metrics and of the distribution, each rule on its
  own, in the fixed order: TGE percentage above 25; TGE circulating positive and ratio
  above 100; percentage of teamAndAdvisors above 20; percentage of liquidityPool below 5.
  And an edit of the default distribution that stores a percentage below 5 for
  liquidityPool (the handler stores the value rounded to one decimal place) gives the
  low-liquidity warning and no other.
\<close>

theorem warnings_are_the_triggered_rules:
  "(\<forall>st m. calculateMetrics st = Inr m \<longrightarrow>
      (\<exists>team pool.
         map_of (distribution st) ''teamAndAdvisors'' = Some team \<and>
         map_of (distribution st) ''liquidityPool'' = Some pool \<and>
         warnings m =
           (if js_gt (tgeCirculatingPercent m) (Finite 25)
            then [''High TGE unlock may cause price instability''] else [])
           @ (if js_gt (tgeCirculating m) (Finite 0) \<and> js_gt (fdvToMcapRatio m) (Finite 100)
              then [''High FDV/MCap ratio indicates significant future dilution''] else [])
           @ (if js_gt (percentage team) (Finite 20) then [''Team allocation appears high''] else [])
           @ (if js_lt (percentage pool) (Finite 5)
              then [''Low liquidity allocation may cause price volatility''] else [])))
   \<and> (\<forall>v. js_le (Finite 0) v \<and> js_lt (round1 v) (Finite 5) \<longrightarrow>
        (\<exists>d' m. handleDistributionChange default_distribution ''liquidityPool'' Percentage v = Inr d'
           \<and> map_option percentage (map_of d' ''liquidityPool'') = Some (round1 v)
           \<and> calculateMetrics (sync_fdv (initial_state\<lparr>distribution := d'\<rparr>)) = Inr m
           \<and> warnings m = [''Low liquidity allocation may cause price volatility'']))"
proof (intro conjI allI impI)
  fix st m
  assume m: "calculateMetrics st = Inr m"
  then obtain team pool where
    team: "map_of (distribution st) ''teamAndAdvisors'' = Some team"
    and pool: "map_of (distribution st) ''liquidityPool'' = Some pool"
    unfolding calculateMetrics_def
    by (auto split: sum.splits list.splits option.splits)
  from warnings_of_metrics [OF m team pool] team pool
  show "\<exists>team pool.
         map_of (distribution st) ''teamAndAdvisors'' = Some team \<and>
         map_of (distribution st) ''liquidityPool'' = Some pool \<and>
         warnings m =
           (if js_gt (tgeCirculatingPercent m) (Finite 25)
            then [''High TGE unlock may cause price instability''] else [])
           @ (if js_gt (tgeCirculating m) (Finite 0) \<and> js_gt (fdvToMcapRatio m) (Finite 100)
              then [''High FDV/MCap ratio indicates significant future dilution''] else [])
           @ (if js_gt (percentage team) (Finite 20) then [''Team allocation appears high''] else [])
           @ (if js_lt (percentage pool) (Finite 5)
              then [''Low liquidity allocation may cause price volatility''] else [])"
    by blast
next
  fix v
  assume v: "js_le (Finite 0) v \<and> js_lt (round1 v) (Finite 5)"
  then have v0: "js_le (Finite 0) v" and v5: "js_lt (round1 v) (Finite 5)" by simp_all
  from round1_below_5 [OF v0 v5] obtain q where q: "round1 v = Finite q" "0 \<le> q" "q < 5"
    by blast
  let ?d = "[(''publicSale'', \<lparr>percentage = Finite 20, tge = Finite 10, duration = Finite 12\<rparr>),
          (''privateRounds'', \<lparr>percentage = Finite 15, tge = Finite 5, duration = Finite 24\<rparr>),
          (''teamAndAdvisors'', \<lparr>percentage = Finite 15, tge = Finite 0, duration = Finite 36\<rparr>),
          (''development'', \<lparr>percentage = Finite 20, tge = Finite 0, duration = Finite 48\<rparr>),
          (''ecosystem'', \<lparr>percentage = Finite 15, tge = Finite 5, duration = Finite 36\<rparr>),
          (''treasury'', \<lparr>percentage = Finite 10, tge = Finite 0, duration = Finite 48\<rparr>),
          (''liquidityPool'', \<lparr>percentage = Finite q, tge = Finite 20, duration = Finite 24\<rparr>)]"
  have edit: "handleDistributionChange default_distribution ''liquidityPool'' Percentage v = Inr ?d"
    using low_liquidity_edit [OF v0 v5] unfolding q(1) .
  obtain m where
    "calculateMetrics (sync_fdv (initial_state\<lparr>distribution := ?d\<rparr>)) = Inr m"
    "warnings m = [''Low liquidity allocation may cause price volatility'']"
    using low_liquidity_warning [OF q(2,3) refl] by blast
  with edit q(1)
  show "\<exists>d' m. handleDistributionChange default_distribution ''liquidityPool'' Percentage v = Inr d'
           \<and> map_option percentage (map_of d' ''liquidityPool'') = Some (round1 v)
           \<and> calculateMetrics (sync_fdv (initial_state\<lparr>distribution := d'\<rparr>)) = Inr m
           \<and> warnings m = [''Low liquidity allocation may cause price volatility'']"
    by (intro exI [of _ ?d] exI [of _ m]) simp
qed

theorem warnings_are_the_triggered_rules_witness:
  "(\<exists>m. calculateMetrics (sync_fdv initial_state) = Inr m \<and> warnings m = [])
   \<and> (\<exists>d' m. handleDistributionChange default_distribution ''liquidityPool'' Percentage (Finite 4)
                 = Inr d'
           \<and> map_option percentage (map_of d' ''liquidityPool'') = Some (Finite 4)
           \<and> calculateMetrics (sync_fdv (initial_state\<lparr>distribution := d'\<rparr>)) = Inr m
           \<and> warnings m = [''Low liquidity allocation may cause price volatility''])"
proof
  let ?m = "\<lparr>tgeCirculating = Finite 45000000, tgeCirculatingPercent = Finite (45 / 10),
            initialMarketCap = Finite 45000,
            fdvToMcapRatio = Finite (3127499741229511 / 140737488355328), warnings = []\<rparr>"
  from warnings_are_the_triggered_rules default_metrics
  obtain team pool where
    "map_of (distribution (sync_fdv initial_state)) ''teamAndAdvisors'' = Some team"
    "map_of (distribution (sync_fdv initial_state)) ''liquidityPool'' = Some pool"
    "warnings ?m =
           (if js_gt (tgeCirculatingPercent ?m) (Finite 25)
            then [''High TGE unlock may cause price instability''] else [])
           @ (if js_gt (tgeCirculating ?m) (Finite 0) \<and> js_gt (fdvToMcapRatio ?m) (Finite 100)
              then [''High FDV/MCap ratio indicates significant future dilution''] else [])
           @ (if js_gt (percentage team) (Finite 20) then [''Team allocation appears high''] else [])
           @ (if js_lt (percentage pool) (Finite 5)
              then [''Low liquidity allocation may cause price volatility''] else [])"
    by blast
  then have "warnings ?m = []"
    by (simp add: sync_fdv_def initial_state_def default_distribution_def)
  with default_metrics
  show "\<exists>m. calculateMetrics (sync_fdv initial_state) = Inr m \<and> warnings m = []"
    by blast
next
  have rounded: "round1 (Finite 4) = Finite 4"
    by (simp add: round1_def f64_eval)
  then have "js_le (Finite 0) (Finite 4) \<and> js_lt (round1 (Finite 4)) (Finite 5)"
    by simp
  with rounded
  show "\<exists>d' m. handleDistributionChange default_distribution ''liquidityPool'' Percentage (Finite 4)
                 = Inr d'
           \<and> map_option percentage (map_of d' ''liquidityPool'') = Some (Finite 4)
           \<and> calculateMetrics (sync_fdv (initial_state\<lparr>distribution := d'\<rparr>)) = Inr m
           \<and> warnings m = [''Low liquidity allocation may cause price volatility'']"
    using warnings_are_the_triggered_rules by metis
qed

section \<open>The ratio of the fully diluted value to the market cap\<close>

lemma nearest_integral:
  assumes "x = of_int n"
  shows "\<exists>k. nearest x = of_int k"
proof (cases "\<bar>n\<bar> \<le> 2 ^ 53")
  case True
  from nearest_of_int [OF this] assms show ?thesis by blast
next
  case False
  have pos: "\<exists>k. round64 y = of_int k" if "y = of_int j" "2 ^ 53 < j" for y j
  proof -
    have "real_of_int (2 ^ 53) < of_int j" using that(2) by (simp only: of_int_less_iff)
    then have y: "2 powi 53 < y" using that(1) by simp
    then have "0 < y" by (smt (verit) zero_less_power_int)
    from exponent_bounds(2) [OF this] y have "(2::real) powi 53 < 2 powi (exponent y + 1)"
      by linarith
    then have "53 < exponent y + 1" by (rule powi_less_cancel)
    then have "0 \<le> binade y - 52" by (simp add: binade_def)
    then have "ulp y = of_int (2 ^ nat (binade y - 52))"
      by (simp add: ulp_def power_int_def)
    then have "round64 y = of_int (round_even (y / ulp y) * 2 ^ nat (binade y - 52))"
      by (simp add: round64_def)
    then show ?thesis ..
  qed
  show ?thesis
  proof (cases "0 \<le> n")
    case True
    with False have "2 ^ 53 < n" by simp
    from pos [OF assms this] True assms show ?thesis by (simp add: nearest_def)
  next
    case neg: False
    with False have "2 ^ 53 < - n" by simp
    moreover have "- x = of_int (- n)" using assms by simp
    ultimately obtain k where "round64 (- x) = of_int k" using pos by blast
    then have "nearest x = of_int (- k)" using neg assms by (simp add: nearest_def)
    then show ?thesis ..
  qed
qed

lemma is_integral_f64:
  assumes "x = of_int n"
  shows "is_integral (f64 x)"
proof -
  from nearest_integral [OF assms] obtain k where "nearest x = of_int k" ..
  then show ?thesis
    using f64_cases [of x] by auto
qed

lemma is_integral_js_floor [simp]: "is_integral (js_floor x)"
  by (cases x) simp_all

lemma is_integral_js_add: "is_integral x \<Longrightarrow> is_integral y \<Longrightarrow> is_integral (js_add x y)"
proof (cases x; cases y)
  fix a b
  assume integral: "is_integral x" "is_integral y" and xy: "x = Finite a" "y = Finite b"
  then have "of_int \<lfloor>a\<rfloor> = a" "of_int \<lfloor>b\<rfloor> = b"
    by (simp_all only: is_integral.simps)
  then have "a + b = of_int (\<lfloor>a\<rfloor> + \<lfloor>b\<rfloor>)"
    by (simp only: of_int_add)
  then have "is_integral (f64 (a + b))" by (rule is_integral_f64)
  with xy show ?thesis by simp
qed simp_all

lemma is_integral_foldl:
  "is_integral a \<Longrightarrow> (\<And>e. is_integral (g e)) \<Longrightarrow>
   is_integral (foldl (\<lambda>sum e. js_add sum (g e)) a xs)"
  by (induction xs arbitrary: a) (simp_all add: is_integral_js_add)

lemma is_integral_tge_total: "is_integral (tge_total supply d)"
  unfolding tge_total_foldl
  by (rule is_integral_foldl) (simp_all add: tgeAmount_def)

lemma tgeCirculating_of_metrics:
  assumes "calculateMetrics st = Inr m"
  shows "tgeCirculating m
           = js_min (tge_total (totalSupply st) (distribution st)) (totalSupply st)"
    and "initialMarketCap m = js_mul (tgeCirculating m) (initialTokenPrice st)"
    and "fdvToMcapRatio m =
           (if js_gt (tgeCirculating m) (Finite 0) then js_div (fdv st) (initialMarketCap m)
            else PositiveInfinity)"
proof -
  from assms obtain s where s: "generateUnlockSchedule st = Inr s"
    unfolding calculateMetrics_def by (auto split: sum.splits)
  from month0_circulating [OF s] obtain first rest where
    first: "s = first # rest"
      "circulating first
         = js_min (tge_total (totalSupply st) (distribution st)) (totalSupply st)"
    by blast
  from assms s first
  show "tgeCirculating m
           = js_min (tge_total (totalSupply st) (distribution st)) (totalSupply st)"
    and "initialMarketCap m = js_mul (tgeCirculating m) (initialTokenPrice st)"
    and "fdvToMcapRatio m =
           (if js_gt (tgeCirculating m) (Finite 0) then js_div (fdv st) (initialMarketCap m)
            else PositiveInfinity)"
    unfolding calculateMetrics_def
    by (auto simp: Let_def split: option.splits)
qed

lemma positive_circulating_at_least_1:
  assumes "is_integral t" "1 \<le> S" "js_gt (js_min t (Finite S)) (Finite 0)"
  shows "\<exists>c. js_min t (Finite S) = Finite c \<and> 1 \<le> c"
proof (cases t)
  case (Finite x)
  with assms(1) have x: "of_int \<lfloor>x\<rfloor> = x" by simp
  show ?thesis
  proof (cases "S < x")
    case True
    with Finite assms(2) show ?thesis by (simp add: js_min_def)
  next
    case False
    with Finite assms(3) have "0 < x" by (simp add: js_min_def js_gt_def)
    then have "(0::real) < of_int \<lfloor>x\<rfloor>" by (simp only: x)
    then have "0 < \<lfloor>x\<rfloor>" by (simp only: of_int_0_less_iff)
    then have "1 \<le> \<lfloor>x\<rfloor>" by simp
    then have "(1::real) \<le> of_int \<lfloor>x\<rfloor>" by linarith
    with x False Finite show ?thesis by (simp add: js_min_def)
  qed
qed (use assms in \<open>simp_all add: js_min_def js_gt_def\<close>)

text \<open>
  Claim C8, amended. Whenever \<open>calculateMetrics\<close> returns: the market cap is the TGE
  circulating amount times the price; the ratio is \<open>fdv\<close> divided by the market cap if the
  TGE circulating amount is positive, and positive infinity otherwise. The guard tests
  \<open>tgeCirculating\<close> only. With a total supply of at least 1 and a price above 0 that is
  enough: a positive TGE circulating amount is at least 1, the market cap is positive and
  the division is not by zero. At the price 0 it is not: the market cap is 0, the division
  is by zero, and with \<open>fdv\<close> 0, as the effect leaves it, the ratio is NaN. So the claim as
  stated, for every price from 0 on, fails at the price 0: see the counterexample below.
\<close>

theorem ratio_guard_tests_circulating_only:
  assumes "calculateMetrics st = Inr m"
  shows "initialMarketCap m = js_mul (tgeCirculating m) (initialTokenPrice st)
         \<and> (js_gt (tgeCirculating m) (Finite 0) \<longrightarrow>
               fdvToMcapRatio m = js_div (fdv st) (initialMarketCap m))
         \<and> (\<not> js_gt (tgeCirculating m) (Finite 0) \<longrightarrow> fdvToMcapRatio m = PositiveInfinity)
         \<and> (\<forall>S p. totalSupply st = Finite S \<and> 1 \<le> S
                 \<and> initialTokenPrice st = Finite p \<and> 0 < p \<and> is_double (Finite p)
                 \<and> js_gt (tgeCirculating m) (Finite 0) \<longrightarrow>
               js_gt (initialMarketCap m) (Finite 0))
         \<and> (\<forall>S. totalSupply st = Finite S \<and> initialTokenPrice st = Finite 0
                 \<and> js_gt (tgeCirculating m) (Finite 0) \<longrightarrow>
               initialMarketCap m = Finite 0
               \<and> (fdv st = Finite 0 \<longrightarrow> fdvToMcapRatio m = NaN))"
proof (intro conjI allI impI)
  note metrics = tgeCirculating_of_metrics [OF assms]
  show "initialMarketCap m = js_mul (tgeCirculating m) (initialTokenPrice st)"
    by (rule metrics(2))
  show "fdvToMcapRatio m = js_div (fdv st) (initialMarketCap m)"
    if "js_gt (tgeCirculating m) (Finite 0)"
    using metrics(3) that by simp
  show "fdvToMcapRatio m = PositiveInfinity" if "\<not> js_gt (tgeCirculating m) (Finite 0)"
    using metrics(3) that by simp
  show "js_gt (initialMarketCap m) (Finite 0)"
    if "totalSupply st = Finite S \<and> 1 \<le> S
          \<and> initialTokenPrice st = Finite p \<and> 0 < p \<and> is_double (Finite p)
          \<and> js_gt (tgeCirculating m) (Finite 0)" for S p
  proof -
    from that have S: "totalSupply st = Finite S" "1 \<le> S"
      and p: "initialTokenPrice st = Finite p" "0 < p" "f64 p = Finite p"
      and positive: "js_gt (tgeCirculating m) (Finite 0)"
      by simp_all
    from positive_circulating_at_least_1 [OF is_integral_tge_total S(2)]
      positive metrics(1) S(1)
    obtain c where c: "tgeCirculating m = Finite c" "1 \<le> c" by metis
    have "p \<le> c * p" using c(2) p(2) by simp
    from f64_ge [OF p(3) this] p(2) show ?thesis
      unfolding metrics(2) c(1) p(1) by (auto simp: js_gt_def)
  qed
  show "initialMarketCap m = Finite 0"
    if "totalSupply st = Finite S \<and> initialTokenPrice st = Finite 0
          \<and> js_gt (tgeCirculating m) (Finite 0)" for S
    using that metrics(1,2)
    by (cases "tge_total (Finite S) (distribution st)")
       (auto simp: js_min_def js_gt_def split: if_splits)
  show "fdvToMcapRatio m = NaN"
    if "totalSupply st = Finite S \<and> initialTokenPrice st = Finite 0
          \<and> js_gt (tgeCirculating m) (Finite 0)" and "fdv st = Finite 0" for S
    using that metrics
    by (cases "tge_total (Finite S) (distribution st)")
       (auto simp: js_min_def js_gt_def split: if_splits)
qed

theorem ratio_guard_tests_circulating_only_witness:
  "\<exists>m. calculateMetrics (sync_fdv initial_state) = Inr m
       \<and> totalSupply (sync_fdv initial_state) = Finite 1000000000
       \<and> (1::real) \<le> 1000000000
       \<and> initialTokenPrice (sync_fdv initial_state)
           = Finite (1152921504606847 / 1152921504606846976)
       \<and> (0::real) < 1152921504606847 / 1152921504606846976
       \<and> is_double (Finite (1152921504606847 / 1152921504606846976))
       \<and> js_gt (tgeCirculating m) (Finite 0)
       \<and> initialMarketCap m = Finite 45000
       \<and> js_gt (initialMarketCap m) (Finite 0)
       \<and> fdvToMcapRatio m = js_div (fdv (sync_fdv initial_state)) (initialMarketCap m)"
proof -
  let ?st = "sync_fdv initial_state"
  let ?m = "\<lparr>tgeCirculating = Finite 45000000, tgeCirculatingPercent = Finite (45 / 10),
            initialMarketCap = Finite 45000,
            fdvToMcapRatio = Finite (3127499741229511 / 140737488355328), warnings = []\<rparr>"
  have S: "totalSupply ?st = Finite 1000000000"
    and p: "initialTokenPrice ?st = Finite (1152921504606847 / 1152921504606846976)"
    by (simp_all add: sync_fdv_def initial_state_def initial_price)
  have double: "is_double (Finite (1152921504606847 / 1152921504606846976))"
    using f64_idem [OF initial_price] by simp
  have positive: "js_gt (tgeCirculating ?m) (Finite 0)" by simp
  have price: "(0::real) < 1152921504606847 / 1152921504606846976" by simp
  note guard = ratio_guard_tests_circulating_only [OF default_metrics]
  from guard S p double positive price
  have cap: "js_gt (initialMarketCap ?m) (Finite 0)"
    by (metis one_le_numeral)
  from guard positive
  have ratio: "fdvToMcapRatio ?m = js_div (fdv ?st) (initialMarketCap ?m)"
    by blast
  show ?thesis
  proof (intro exI [of _ ?m] conjI)
    show "calculateMetrics ?st = Inr ?m" by (rule default_metrics)
    show "initialMarketCap ?m = Finite 45000" by simp
    show "(1::real) \<le> 1000000000" by simp
  qed (fact S p price double positive cap ratio)+
qed

text \<open>
  The initial state after \<open>handleTokenPriceChange(0)\<close> and the effect on \<open>fdv\<close>: the TGE
  circulating amount is 45,000,000, so the guard passes, and the quotient is 0 / 0.
\<close>

theorem zero_price_ratio_is_nan:
  "calculateMetrics (sync_fdv (handleTokenPriceChange initial_state (Finite 0))) =
     Inr \<lparr>tgeCirculating = Finite 45000000, tgeCirculatingPercent = Finite (45 / 10),
          initialMarketCap = Finite 0, fdvToMcapRatio = NaN, warnings = []\<rparr>"
proof -
  let ?st = "sync_fdv (handleTokenPriceChange initial_state (Finite 0))"
  have d: "\<forall>e\<in>set (distribution ?st). \<not> js_le (Finite 49) (duration (snd e))"
    using default_durations by (simp add: sync_fdv_def handleTokenPriceChange_def initial_state_def)
  have t: "Finite 45000000
             = js_min (tge_total (totalSupply ?st) (distribution ?st)) (totalSupply ?st)"
    by (simp add: sync_fdv_def handleTokenPriceChange_def initial_state_def default_tge_total
        js_min_def)
  have team: "map_of (distribution ?st) ''teamAndAdvisors''
                = Some \<lparr>percentage = Finite 15, tge = Finite 0, duration = Finite 36\<rparr>"
    by (simp add: sync_fdv_def handleTokenPriceChange_def initial_state_def default_distribution_def)
  have pool: "map_of (distribution ?st) ''liquidityPool''
                = Some \<lparr>percentage = Finite 5, tge = Finite 20, duration = Finite 24\<rparr>"
    by (simp add: sync_fdv_def handleTokenPriceChange_def initial_state_def default_distribution_def)
  have state: "totalSupply ?st = Finite 1000000000" "initialTokenPrice ?st = Finite 0"
    "fdv ?st = Finite 0"
    by (simp_all add: sync_fdv_def handleTokenPriceChange_def initial_state_def js_max_def)
  have percent: "js_mul (js_div (Finite 45000000) (Finite 1000000000)) (Finite 100)
                   = Finite (45 / 10)"
    by (simp add: f64_eval)
  show ?thesis
    unfolding calculateMetrics_Inr [OF d team pool t] state percent
    by (simp add: js_and_def js_gt_def)
qed

end
